theory Spec2Isabelle
  imports Complex_Main
begin

section \<open>Strings and character codes\<close>

text \<open>
  An ECMAScript string is a sequence of UTF-16 code units. A code unit is modelled as a
  natural number and a string as a list of them. \<open>charCodeAt\<close> returns \<open>NaN\<close> outside the
  string; \<open>NaN\<close> is \<open>None\<close> here, and every comparison with it is false.
\<close>

type_synonym jsstring = "nat list"

definition str :: "string \<Rightarrow> jsstring" where
  "str s = map of_char s"

definition charCodeAt :: "jsstring \<Rightarrow> nat \<Rightarrow> nat option" where
  "charCodeAt text i = (if i < length text then Some (text ! i) else None)"

text \<open>\<open>text.substring(a, b)\<close>: both indices are clamped to the length and swapped when \<open>a > b\<close>.\<close>

definition substring :: "jsstring \<Rightarrow> nat \<Rightarrow> nat \<Rightarrow> jsstring" where
  "substring text a b =
     (let a' = min a (length text); b' = min b (length text)
      in take (max a' b' - min a' b') (drop (min a' b') text))"

text \<open>\<open>String.fromCharCode\<close>, only ever applied to a code unit below \<open>2 ^ 16\<close>.\<close>

definition fromCharCode :: "nat \<Rightarrow> jsstring" where
  "fromCharCode c = [c]"

text \<open>The members of \<open>CharacterCodes\<close> that the scanner uses.\<close>

abbreviation (input) "CharacterCodes_lineFeed \<equiv> (0x0A::nat)"
abbreviation (input) "CharacterCodes_carriageReturn \<equiv> (0x0D::nat)"
abbreviation (input) "CharacterCodes_lineSeparator \<equiv> (0x2028::nat)"
abbreviation (input) "CharacterCodes_paragraphSeparator \<equiv> (0x2029::nat)"
abbreviation (input) "CharacterCodes_space \<equiv> (0x20::nat)"
abbreviation (input) "CharacterCodes_nonBreakingSpace \<equiv> (0xA0::nat)"
abbreviation (input) "CharacterCodes_enQuad \<equiv> (0x2000::nat)"
abbreviation (input) "CharacterCodes_zeroWidthSpace \<equiv> (0x200B::nat)"
abbreviation (input) "CharacterCodes_narrowNoBreakSpace \<equiv> (0x202F::nat)"
abbreviation (input) "CharacterCodes_ideographicSpace \<equiv> (0x3000::nat)"
abbreviation (input) "CharacterCodes_mathematicalSpace \<equiv> (0x205F::nat)"
abbreviation (input) "CharacterCodes_ogham \<equiv> (0x1680::nat)"
abbreviation (input) "CharacterCodes_0 \<equiv> (0x30::nat)"
abbreviation (input) "CharacterCodes_9 \<equiv> (0x39::nat)"
abbreviation (input) "CharacterCodes_a \<equiv> (0x61::nat)"
abbreviation (input) "CharacterCodes_b \<equiv> (0x62::nat)"
abbreviation (input) "CharacterCodes_e \<equiv> (0x65::nat)"
abbreviation (input) "CharacterCodes_f \<equiv> (0x66::nat)"
abbreviation (input) "CharacterCodes_n \<equiv> (0x6E::nat)"
abbreviation (input) "CharacterCodes_r \<equiv> (0x72::nat)"
abbreviation (input) "CharacterCodes_t \<equiv> (0x74::nat)"
abbreviation (input) "CharacterCodes_u \<equiv> (0x75::nat)"
abbreviation (input) "CharacterCodes_A \<equiv> (0x41::nat)"
abbreviation (input) "CharacterCodes_E \<equiv> (0x45::nat)"
abbreviation (input) "CharacterCodes_F \<equiv> (0x46::nat)"
abbreviation (input) "CharacterCodes_asterisk \<equiv> (0x2A::nat)"
abbreviation (input) "CharacterCodes_backslash \<equiv> (0x5C::nat)"
abbreviation (input) "CharacterCodes_closeBrace \<equiv> (0x7D::nat)"
abbreviation (input) "CharacterCodes_closeBracket \<equiv> (0x5D::nat)"
abbreviation (input) "CharacterCodes_colon \<equiv> (0x3A::nat)"
abbreviation (input) "CharacterCodes_comma \<equiv> (0x2C::nat)"
abbreviation (input) "CharacterCodes_dot \<equiv> (0x2E::nat)"
abbreviation (input) "CharacterCodes_doubleQuote \<equiv> (0x22::nat)"
abbreviation (input) "CharacterCodes_minus \<equiv> (0x2D::nat)"
abbreviation (input) "CharacterCodes_openBrace \<equiv> (0x7B::nat)"
abbreviation (input) "CharacterCodes_openBracket \<equiv> (0x5B::nat)"
abbreviation (input) "CharacterCodes_plus \<equiv> (0x2B::nat)"
abbreviation (input) "CharacterCodes_slash \<equiv> (0x2F::nat)"
abbreviation (input) "CharacterCodes_backspace \<equiv> (0x08::nat)"
abbreviation (input) "CharacterCodes_formFeed \<equiv> (0x0C::nat)"
abbreviation (input) "CharacterCodes_byteOrderMark \<equiv> (0xFEFF::nat)"
abbreviation (input) "CharacterCodes_tab \<equiv> (0x09::nat)"
abbreviation (input) "CharacterCodes_verticalTab \<equiv> (0x0B::nat)"

fun isWhitespace :: "nat option \<Rightarrow> bool" where
  "isWhitespace None = False"
| "isWhitespace (Some ch) =
     (ch = CharacterCodes_space \<or> ch = CharacterCodes_tab \<or> ch = CharacterCodes_verticalTab
      \<or> ch = CharacterCodes_formFeed \<or> ch = CharacterCodes_nonBreakingSpace
      \<or> ch = CharacterCodes_ogham
      \<or> (ch \<ge> CharacterCodes_enQuad \<and> ch \<le> CharacterCodes_zeroWidthSpace)
      \<or> ch = CharacterCodes_narrowNoBreakSpace \<or> ch = CharacterCodes_mathematicalSpace
      \<or> ch = CharacterCodes_ideographicSpace \<or> ch = CharacterCodes_byteOrderMark)"

fun isLineBreak :: "nat option \<Rightarrow> bool" where
  "isLineBreak None = False"
| "isLineBreak (Some ch) =
     (ch = CharacterCodes_lineFeed \<or> ch = CharacterCodes_carriageReturn
      \<or> ch = CharacterCodes_lineSeparator \<or> ch = CharacterCodes_paragraphSeparator)"

fun isDigit :: "nat option \<Rightarrow> bool" where
  "isDigit None = False"
| "isDigit (Some ch) = (ch \<ge> CharacterCodes_0 \<and> ch \<le> CharacterCodes_9)"

section \<open>The scanner\<close>

datatype ScanError =
    ScanError_None
  | ScanError_UnexpectedEndOfComment
  | ScanError_UnexpectedEndOfString
  | ScanError_UnexpectedEndOfNumber
  | ScanError_InvalidUnicode
  | ScanError_InvalidEscapeCharacter
  | ScanError_InvalidCharacter

datatype SyntaxKind =
    OpenBraceToken
  | CloseBraceToken
  | OpenBracketToken
  | CloseBracketToken
  | CommaToken
  | ColonToken
  | NullKeyword
  | TrueKeyword
  | FalseKeyword
  | StringLiteral
  | NumericLiteral
  | LineCommentTrivia
  | BlockCommentTrivia
  | LineBreakTrivia
  | Trivia
  | Unknown
  | EOF

text \<open>
  The variables that \<open>createScanner\<close> closes over. The text and its length never change and
  are a parameter of every function.
\<close>

record scanner =
  pos :: nat
  tokenValue :: jsstring
  tokenOffset :: nat
  token :: SyntaxKind
  scanError :: ScanError

definition createScanner :: scanner where
  "createScanner =
     \<lparr>pos = 0, tokenValue = [], tokenOffset = 0, token = Unknown, scanError = ScanError_None\<rparr>"

definition getTokenLength :: "scanner \<Rightarrow> nat" where
  "getTokenLength s = pos s - tokenOffset s"

text \<open>
  \<open>scanHexDigits\<close>: the loop carries \<open>digits\<close>, \<open>hexValue\<close> and the position; the result is
  \<open>-1\<close> when fewer than \<open>count\<close> hexadecimal digits were found.
\<close>

function scanHexDigits_loop :: "jsstring \<Rightarrow> nat \<Rightarrow> nat \<Rightarrow> nat \<Rightarrow> nat \<Rightarrow> nat \<times> nat \<times> nat" where
  "scanHexDigits_loop text count digits hexValue p =
     (if digits < count then
        (case charCodeAt text p of
           None \<Rightarrow> (digits, hexValue, p)
         | Some ch \<Rightarrow>
             if ch \<ge> CharacterCodes_0 \<and> ch \<le> CharacterCodes_9 then
               scanHexDigits_loop text count (digits + 1) (hexValue * 16 + ch - CharacterCodes_0) (p + 1)
             else if ch \<ge> CharacterCodes_A \<and> ch \<le> CharacterCodes_F then
               scanHexDigits_loop text count (digits + 1) (hexValue * 16 + ch - CharacterCodes_A + 10) (p + 1)
             else if ch \<ge> CharacterCodes_a \<and> ch \<le> CharacterCodes_f then
               scanHexDigits_loop text count (digits + 1) (hexValue * 16 + ch - CharacterCodes_a + 10) (p + 1)
             else (digits, hexValue, p))
      else (digits, hexValue, p))"
  by pat_completeness auto
termination
  by (relation "measure (\<lambda>(text, count, digits, hexValue, p). count - digits)") auto

declare scanHexDigits_loop.simps [simp del]

definition scanHexDigits :: "jsstring \<Rightarrow> nat \<Rightarrow> scanner \<Rightarrow> int \<times> scanner" where
  "scanHexDigits text count s =
     (case scanHexDigits_loop text count 0 0 (pos s) of
        (digits, hexValue, p) \<Rightarrow>
          (if digits < count then - 1 else int hexValue, s\<lparr>pos := p\<rparr>))"

definition setPosition :: "nat \<Rightarrow> scanner \<Rightarrow> scanner" where
  "setPosition newPosition s =
     s\<lparr>pos := newPosition, tokenValue := [], tokenOffset := 0, token := Unknown,
       scanError := ScanError_None\<rparr>"

text \<open>\<open>while (pos < text.length && isDigit(text.charCodeAt(pos))) pos++\<close>\<close>

function skipDigits :: "jsstring \<Rightarrow> nat \<Rightarrow> nat" where
  "skipDigits text p =
     (if p < length text \<and> isDigit (charCodeAt text p) then skipDigits text (p + 1) else p)"
  by pat_completeness auto
termination
  by (relation "measure (\<lambda>(text, p). length text - p)") auto

declare skipDigits.simps [simp del]

definition scanNumber :: "jsstring \<Rightarrow> scanner \<Rightarrow> jsstring \<times> scanner" where
  "scanNumber text s =
     (let start = pos s;
          p1 = (if charCodeAt text (pos s) = Some CharacterCodes_0 then pos s + 1
                else skipDigits text (pos s + 1))
      in
      if p1 < length text \<and> charCodeAt text p1 = Some CharacterCodes_dot
         \<and> \<not> (p1 + 1 < length text \<and> isDigit (charCodeAt text (p1 + 1)))
      then (substring text start (p1 + 1),
            s\<lparr>pos := p1 + 1, scanError := ScanError_UnexpectedEndOfNumber\<rparr>)
      else
        let p2 = (if p1 < length text \<and> charCodeAt text p1 = Some CharacterCodes_dot
                  then skipDigits text (p1 + 2) else p1);
            end = p2
        in
        if p2 < length text
           \<and> (charCodeAt text p2 = Some CharacterCodes_E \<or> charCodeAt text p2 = Some CharacterCodes_e)
        then
          let p3 = p2 + 1;
              p4 = (if (p3 < length text \<and> charCodeAt text p3 = Some CharacterCodes_plus)
                       \<or> charCodeAt text p3 = Some CharacterCodes_minus
                    then p3 + 1 else p3)
          in
          if p4 < length text \<and> isDigit (charCodeAt text p4)
          then (let p5 = skipDigits text (p4 + 1)
                in (substring text start p5, s\<lparr>pos := p5\<rparr>))
          else (substring text start end,
                s\<lparr>pos := p4, scanError := ScanError_UnexpectedEndOfNumber\<rparr>)
        else (substring text start end, s\<lparr>pos := p2\<rparr>))"

text \<open>
  \<open>scanString\<close>. One escape sequence, read after the backslash and the character \<open>ch2\<close>
  that follows it were consumed: the text it adds to \<open>result\<close> and the scanner afterwards.
\<close>

definition scanEscape :: "jsstring \<Rightarrow> nat \<Rightarrow> scanner \<Rightarrow> jsstring \<times> scanner" where
  "scanEscape text ch2 s =
     (if ch2 = CharacterCodes_doubleQuote then ([CharacterCodes_doubleQuote], s)
      else if ch2 = CharacterCodes_backslash then ([CharacterCodes_backslash], s)
      else if ch2 = CharacterCodes_slash then ([CharacterCodes_slash], s)
      else if ch2 = CharacterCodes_b then ([CharacterCodes_backspace], s)
      else if ch2 = CharacterCodes_f then ([CharacterCodes_formFeed], s)
      else if ch2 = CharacterCodes_n then ([CharacterCodes_lineFeed], s)
      else if ch2 = CharacterCodes_r then ([CharacterCodes_carriageReturn], s)
      else if ch2 = CharacterCodes_t then ([CharacterCodes_tab], s)
      else if ch2 = CharacterCodes_u then
        (case scanHexDigits text 4 s of
           (ch3, s') \<Rightarrow>
             if ch3 \<ge> 0 then (fromCharCode (nat ch3), s')
             else ([], s'\<lparr>scanError := ScanError_InvalidUnicode\<rparr>))
      else ([], s\<lparr>scanError := ScanError_InvalidEscapeCharacter\<rparr>))"

lemma scanHexDigits_loop_pos: "p \<le> snd (snd (scanHexDigits_loop text count digits hexValue p))"
proof (induction "text" count digits hexValue p rule: scanHexDigits_loop.induct)
  case (1 inp count digits hexValue p)
  then show ?case
    by (subst scanHexDigits_loop.simps) (auto split: option.splits dest: Suc_leD)
qed

lemma scanEscape_pos: "pos s \<le> pos (snd (scanEscape text ch2 s))"
  using scanHexDigits_loop_pos [of "pos s" "text" 4 0 0]
  by (auto simp: scanEscape_def scanHexDigits_def split: prod.splits)

function scanString_loop :: "jsstring \<Rightarrow> jsstring \<Rightarrow> nat \<Rightarrow> scanner \<Rightarrow> jsstring \<times> scanner" where
  "scanString_loop text result start s =
     (if pos s \<ge> length text then
        (result @ substring text start (pos s), s\<lparr>scanError := ScanError_UnexpectedEndOfString\<rparr>)
      else if text ! pos s = CharacterCodes_doubleQuote then
        (result @ substring text start (pos s), s\<lparr>pos := pos s + 1\<rparr>)
      else if text ! pos s = CharacterCodes_backslash then
        (if pos s + 1 \<ge> length text then
           (result @ substring text start (pos s),
            s\<lparr>pos := pos s + 1, scanError := ScanError_UnexpectedEndOfString\<rparr>)
         else
           scanString_loop text
             (result @ substring text start (pos s)
                @ fst (scanEscape text (text ! (pos s + 1)) (s\<lparr>pos := pos s + 2\<rparr>)))
             (pos (snd (scanEscape text (text ! (pos s + 1)) (s\<lparr>pos := pos s + 2\<rparr>))))
             (snd (scanEscape text (text ! (pos s + 1)) (s\<lparr>pos := pos s + 2\<rparr>))))
      else if text ! pos s \<le> 0x1F then
        (if isLineBreak (Some (text ! pos s)) then
           (result @ substring text start (pos s),
            s\<lparr>scanError := ScanError_UnexpectedEndOfString\<rparr>)
         else
           scanString_loop text result start
             (s\<lparr>scanError := ScanError_InvalidCharacter, pos := pos s + 1\<rparr>))
      else scanString_loop text result start (s\<lparr>pos := pos s + 1\<rparr>))"
  by pat_completeness auto
termination
proof (relation "measure (\<lambda>(text, result, start, s). length text - pos s)", goal_cases)
  case 1
  show ?case by simp
next
  case (2 inp result start s)
  have "pos s + 2 \<le> pos (snd (scanEscape inp (inp ! (pos s + 1)) (s\<lparr>pos := pos s + 2\<rparr>)))"
    using scanEscape_pos [of "s\<lparr>pos := pos s + 2\<rparr>" inp "inp ! (pos s + 1)"] by simp
  with 2 show ?case by simp
next
  case 3
  then show ?case by simp
next
  case 4
  then show ?case by simp
qed

declare scanString_loop.simps [simp del]

definition scanString :: "jsstring \<Rightarrow> scanner \<Rightarrow> jsstring \<times> scanner" where
  "scanString text s = scanString_loop text [] (pos s) s"

text \<open>
  The loops of \<open>scanNext\<close>. Whitespace is a do-while: the first character is consumed
  before the test.
\<close>

function scanWhitespace :: "jsstring \<Rightarrow> nat \<Rightarrow> jsstring \<Rightarrow> nat \<Rightarrow> jsstring \<times> nat" where
  "scanWhitespace text code v p =
     (case charCodeAt text (p + 1) of
        None \<Rightarrow> (v @ fromCharCode code, p + 1)
      | Some code' \<Rightarrow>
          if isWhitespace (Some code') then scanWhitespace text code' (v @ fromCharCode code) (p + 1)
          else (v @ fromCharCode code, p + 1))"
  by pat_completeness auto
termination
  by (relation "measure (\<lambda>(text, code, v, p). length text - p)")
     (auto simp: charCodeAt_def split: if_splits)

declare scanWhitespace.simps [simp del]

function scanLineComment :: "jsstring \<Rightarrow> nat \<Rightarrow> nat" where
  "scanLineComment text p =
     (if p < length text then
        (if isLineBreak (charCodeAt text p) then p else scanLineComment text (p + 1))
      else p)"
  by pat_completeness auto
termination
  by (relation "measure (\<lambda>(text, p). length text - p)") auto

declare scanLineComment.simps [simp del]

function scanBlockComment :: "jsstring \<Rightarrow> nat \<Rightarrow> nat \<Rightarrow> nat \<times> bool" where
  "scanBlockComment text safeLength p =
     (if p < safeLength then
        (if charCodeAt text p = Some CharacterCodes_asterisk
            \<and> charCodeAt text (p + 1) = Some CharacterCodes_slash
         then (p + 2, True)
         else scanBlockComment text safeLength (p + 1))
      else (p, False))"
  by pat_completeness auto
termination
  by (relation "measure (\<lambda>(text, safeLength, p). safeLength - p)") auto

declare scanBlockComment.simps [simp del]

fun isUnknownContentCharacter :: "nat option \<Rightarrow> bool" where
  "isUnknownContentCharacter code =
     (if isWhitespace code \<or> isLineBreak code then False
      else if code = Some CharacterCodes_closeBrace \<or> code = Some CharacterCodes_closeBracket
              \<or> code = Some CharacterCodes_openBrace \<or> code = Some CharacterCodes_openBracket
              \<or> code = Some CharacterCodes_doubleQuote \<or> code = Some CharacterCodes_colon
              \<or> code = Some CharacterCodes_comma \<or> code = Some CharacterCodes_slash
      then False
      else True)"

function scanUnknownContent :: "jsstring \<Rightarrow> nat \<Rightarrow> nat" where
  "scanUnknownContent text p =
     (if p < length text \<and> isUnknownContentCharacter (charCodeAt text p)
      then scanUnknownContent text (p + 1) else p)"
  by pat_completeness auto
termination
  by (relation "measure (\<lambda>(text, p). length text - p)") auto

declare scanUnknownContent.simps [simp del]

text \<open>
  \<open>scanNext\<close> returns the token it stores in \<open>token\<close>; the model returns the scanner.
  In the comment branch the source takes \<open>start = pos - 1\<close>; at position 0 that is \<open>-1\<close>,
  which \<open>substring\<close> clamps to 0, as the subtraction on \<open>nat\<close> does.
\<close>

definition scanNext :: "jsstring \<Rightarrow> scanner \<Rightarrow> scanner" where
  "scanNext text s0 =
     (let s = s0\<lparr>tokenValue := [], scanError := ScanError_None, tokenOffset := pos s0\<rparr> in
      if pos s \<ge> length text then s\<lparr>tokenOffset := length text, token := EOF\<rparr>
      else
        let code = text ! pos s in
        if isWhitespace (Some code) then
          (case scanWhitespace text code [] (pos s) of
             (v, p) \<Rightarrow> s\<lparr>pos := p, tokenValue := v, token := Trivia\<rparr>)
        else if isLineBreak (Some code) then
          (if code = CharacterCodes_carriageReturn
              \<and> charCodeAt text (pos s + 1) = Some CharacterCodes_lineFeed
           then s\<lparr>pos := pos s + 2, tokenValue := fromCharCode code @ [CharacterCodes_lineFeed],
                  token := LineBreakTrivia\<rparr>
           else s\<lparr>pos := pos s + 1, tokenValue := fromCharCode code, token := LineBreakTrivia\<rparr>)
        else if code = CharacterCodes_openBrace then s\<lparr>pos := pos s + 1, token := OpenBraceToken\<rparr>
        else if code = CharacterCodes_closeBrace then s\<lparr>pos := pos s + 1, token := CloseBraceToken\<rparr>
        else if code = CharacterCodes_openBracket then s\<lparr>pos := pos s + 1, token := OpenBracketToken\<rparr>
        else if code = CharacterCodes_closeBracket then s\<lparr>pos := pos s + 1, token := CloseBracketToken\<rparr>
        else if code = CharacterCodes_colon then s\<lparr>pos := pos s + 1, token := ColonToken\<rparr>
        else if code = CharacterCodes_comma then s\<lparr>pos := pos s + 1, token := CommaToken\<rparr>
        else if code = CharacterCodes_doubleQuote then
          (case scanString text (s\<lparr>pos := pos s + 1\<rparr>) of
             (v, s') \<Rightarrow> s'\<lparr>tokenValue := v, token := StringLiteral\<rparr>)
        else if code = CharacterCodes_slash then
          (let start = pos s - 1 in
           if charCodeAt text (pos s + 1) = Some CharacterCodes_slash then
             (let p = scanLineComment text (pos s + 2)
              in s\<lparr>pos := p, tokenValue := substring text start p, token := LineCommentTrivia\<rparr>)
           else if charCodeAt text (pos s + 1) = Some CharacterCodes_asterisk then
             (case scanBlockComment text (length text - 1) (pos s + 2) of
                (p, commentClosed) \<Rightarrow>
                  if \<not> commentClosed then
                    s\<lparr>pos := p + 1, scanError := ScanError_UnexpectedEndOfComment,
                      tokenValue := substring text start (p + 1), token := BlockCommentTrivia\<rparr>
                  else s\<lparr>pos := p, tokenValue := substring text start p,
                         token := BlockCommentTrivia\<rparr>)
           else s\<lparr>tokenValue := fromCharCode code, pos := pos s + 1, token := Unknown\<rparr>)
        else if code = CharacterCodes_minus
                \<and> (pos s + 1 = length text \<or> \<not> isDigit (charCodeAt text (pos s + 1))) then
          s\<lparr>tokenValue := fromCharCode code, pos := pos s + 1, token := Unknown\<rparr>
        else if code = CharacterCodes_minus then
          (case scanNumber text (s\<lparr>tokenValue := fromCharCode code, pos := pos s + 1\<rparr>) of
             (v, s') \<Rightarrow> s'\<lparr>tokenValue := fromCharCode code @ v, token := NumericLiteral\<rparr>)
        else if isDigit (Some code) then
          (case scanNumber text s of
             (v, s') \<Rightarrow> s'\<lparr>tokenValue := v, token := NumericLiteral\<rparr>)
        else
          (let p = scanUnknownContent text (pos s) in
           if tokenOffset s \<noteq> p then
             (let v = substring text (tokenOffset s) p in
              s\<lparr>pos := p, tokenValue := v,
                token := (if v = str ''true'' then TrueKeyword
                          else if v = str ''false'' then FalseKeyword
                          else if v = str ''null'' then NullKeyword
                          else Unknown)\<rparr>)
           else
             s\<lparr>tokenValue := (case charCodeAt text p of Some c \<Rightarrow> fromCharCode c | None \<Rightarrow> [0]),
               pos := p + 1, token := Unknown\<rparr>))"

text \<open>
  \<open>scanNextNonTrivia\<close> is the \<open>scan\<close> of a scanner created with \<open>ignoreTrivia\<close>; \<open>visit\<close>
  creates its scanner without it, and \<open>scan\<close> is \<open>scanNext\<close> there.
\<close>

definition scan :: "jsstring \<Rightarrow> scanner \<Rightarrow> scanner" where
  "scan text s = scanNext text s"

subsection \<open>Every scan moves forward\<close>

lemma skipDigits_ge: "p \<le> skipDigits inp p"
proof (induction inp p rule: skipDigits.induct)
  case (1 inp p)
  then show ?case
    by (subst skipDigits.simps) (auto dest: Suc_leD)
qed

lemma scanWhitespace_gt: "p < snd (scanWhitespace inp code v p)"
proof (induction inp code v p rule: scanWhitespace.induct)
  case (1 inp code v p)
  then show ?case
    by (subst scanWhitespace.simps) (auto split: option.splits dest: Suc_lessD)
qed

lemma scanLineComment_ge: "p \<le> scanLineComment inp p"
proof (induction inp p rule: scanLineComment.induct)
  case (1 inp p)
  then show ?case
    by (subst scanLineComment.simps) (auto dest: Suc_leD)
qed

lemma scanBlockComment_ge: "p \<le> fst (scanBlockComment inp n p)"
proof (induction inp n p rule: scanBlockComment.induct)
  case (1 inp n p)
  then show ?case
    by (subst scanBlockComment.simps) (auto dest: Suc_leD)
qed

lemma scanUnknownContent_ge: "p \<le> scanUnknownContent inp p"
proof (induction inp p rule: scanUnknownContent.induct)
  case (1 inp p)
  then show ?case
    by (subst scanUnknownContent.simps) (auto simp del: isUnknownContentCharacter.simps dest: Suc_leD)
qed

lemma scanString_loop_ge: "pos s \<le> pos (snd (scanString_loop inp r st s))"
proof (induction inp r st s rule: scanString_loop.induct)
  case (1 inp r st s)
  have e: "pos s + 2 \<le> pos (snd (scanEscape inp (inp ! (pos s + 1)) (s\<lparr>pos := pos s + 2\<rparr>)))"
    using scanEscape_pos [of "s\<lparr>pos := pos s + 2\<rparr>" inp "inp ! (pos s + 1)"] by simp
  show ?case
    using 1 e
    by (subst scanString_loop.simps) (auto simp del: isLineBreak.simps)
qed

lemma scanNumber_gt: "pos s < pos (snd (scanNumber inp s))"
proof -
  define p1 where "p1 = (if charCodeAt inp (pos s) = Some CharacterCodes_0 then pos s + 1
                else skipDigits inp (pos s + 1))"
  have a: "\<And>p q. q < p \<Longrightarrow> q < skipDigits inp p"
    using skipDigits_ge order_less_le_trans by blast
  have p1: "pos s < p1"
    by (simp add: p1_def a)
  show ?thesis
    unfolding scanNumber_def Let_def p1_def [symmetric]
    using p1 by (auto intro!: a less_SucI)
qed


lemma scanNext_EOF:
  "length inp \<le> pos s \<Longrightarrow>
   scanNext inp s = s\<lparr>tokenValue := [], scanError := ScanError_None, tokenOffset := length inp, token := EOF\<rparr>"
  by (simp add: scanNext_def)


text \<open>The scanner as \<open>scanNext\<close> has it after its first three assignments.\<close>

definition scanStart :: "scanner \<Rightarrow> scanner" where
  "scanStart s = s\<lparr>tokenValue := [], scanError := ScanError_None, tokenOffset := pos s\<rparr>"

lemma scanNext_whitespace:
  "pos s < length inp \<Longrightarrow> isWhitespace (Some (inp ! pos s)) \<Longrightarrow>
   scanNext inp s =
     (scanStart s)\<lparr>pos := snd (scanWhitespace inp (inp ! pos s) [] (pos s)),
                   tokenValue := fst (scanWhitespace inp (inp ! pos s) [] (pos s)),
                   token := Trivia\<rparr>"
  by (simp add: scanNext_def scanStart_def Let_def case_prod_beta del: isWhitespace.simps)

lemma scanNext_lineBreak:
  "pos s < length inp \<Longrightarrow> \<not> isWhitespace (Some (inp ! pos s)) \<Longrightarrow>
   isLineBreak (Some (inp ! pos s)) \<Longrightarrow>
   token (scanNext inp s) = LineBreakTrivia \<and> pos s < pos (scanNext inp s)
   \<and> scanError (scanNext inp s) = ScanError_None"
  by (simp add: scanNext_def Let_def del: isWhitespace.simps isLineBreak.simps)

lemma scanNext_punctuation:
  assumes "pos s < length inp"
  shows "inp ! pos s = CharacterCodes_openBrace \<Longrightarrow>
           scanNext inp s = (scanStart s)\<lparr>pos := pos s + 1, token := OpenBraceToken\<rparr>"
    and "inp ! pos s = CharacterCodes_closeBrace \<Longrightarrow>
           scanNext inp s = (scanStart s)\<lparr>pos := pos s + 1, token := CloseBraceToken\<rparr>"
    and "inp ! pos s = CharacterCodes_openBracket \<Longrightarrow>
           scanNext inp s = (scanStart s)\<lparr>pos := pos s + 1, token := OpenBracketToken\<rparr>"
    and "inp ! pos s = CharacterCodes_closeBracket \<Longrightarrow>
           scanNext inp s = (scanStart s)\<lparr>pos := pos s + 1, token := CloseBracketToken\<rparr>"
    and "inp ! pos s = CharacterCodes_colon \<Longrightarrow>
           scanNext inp s = (scanStart s)\<lparr>pos := pos s + 1, token := ColonToken\<rparr>"
    and "inp ! pos s = CharacterCodes_comma \<Longrightarrow>
           scanNext inp s = (scanStart s)\<lparr>pos := pos s + 1, token := CommaToken\<rparr>"
  using assms by (simp_all add: scanNext_def scanStart_def Let_def)

lemma scanNext_string:
  "pos s < length inp \<Longrightarrow> inp ! pos s = CharacterCodes_doubleQuote \<Longrightarrow>
   scanNext inp s =
     (snd (scanString inp ((scanStart s)\<lparr>pos := pos s + 1\<rparr>)))
       \<lparr>tokenValue := fst (scanString inp ((scanStart s)\<lparr>pos := pos s + 1\<rparr>)),
        token := StringLiteral\<rparr>"
  by (simp add: scanNext_def scanStart_def Let_def case_prod_beta)

lemma scanNext_slash:
  "pos s < length inp \<Longrightarrow> inp ! pos s = CharacterCodes_slash \<Longrightarrow>
   scanNext inp s =
     (if charCodeAt inp (pos s + 1) = Some CharacterCodes_slash then
        (scanStart s)\<lparr>pos := scanLineComment inp (pos s + 2),
           tokenValue := substring inp (pos s - 1) (scanLineComment inp (pos s + 2)),
           token := LineCommentTrivia\<rparr>
      else if charCodeAt inp (pos s + 1) = Some CharacterCodes_asterisk then
        (if \<not> snd (scanBlockComment inp (length inp - 1) (pos s + 2)) then
           (scanStart s)\<lparr>pos := fst (scanBlockComment inp (length inp - 1) (pos s + 2)) + 1,
              scanError := ScanError_UnexpectedEndOfComment,
              tokenValue := substring inp (pos s - 1)
                 (fst (scanBlockComment inp (length inp - 1) (pos s + 2)) + 1),
              token := BlockCommentTrivia\<rparr>
         else
           (scanStart s)\<lparr>pos := fst (scanBlockComment inp (length inp - 1) (pos s + 2)),
              tokenValue := substring inp (pos s - 1)
                 (fst (scanBlockComment inp (length inp - 1) (pos s + 2))),
              token := BlockCommentTrivia\<rparr>)
      else (scanStart s)\<lparr>tokenValue := [CharacterCodes_slash], pos := pos s + 1, token := Unknown\<rparr>)"
  by (simp add: scanNext_def scanStart_def Let_def case_prod_beta fromCharCode_def)

lemma scanNext_minus:
  "pos s < length inp \<Longrightarrow> inp ! pos s = CharacterCodes_minus \<Longrightarrow>
   scanNext inp s =
     (if pos s + 1 = length inp \<or> \<not> isDigit (charCodeAt inp (pos s + 1)) then
        (scanStart s)\<lparr>tokenValue := [CharacterCodes_minus], pos := pos s + 1, token := Unknown\<rparr>
      else
        (snd (scanNumber inp ((scanStart s)\<lparr>tokenValue := [CharacterCodes_minus], pos := pos s + 1\<rparr>)))
          \<lparr>tokenValue := CharacterCodes_minus
              # fst (scanNumber inp ((scanStart s)\<lparr>tokenValue := [CharacterCodes_minus], pos := pos s + 1\<rparr>)),
           token := NumericLiteral\<rparr>)"
  by (simp add: scanNext_def scanStart_def Let_def case_prod_beta fromCharCode_def)

lemma scanNext_digit:
  "pos s < length inp \<Longrightarrow> isDigit (Some (inp ! pos s)) \<Longrightarrow>
   scanNext inp s =
     (snd (scanNumber inp (scanStart s)))
       \<lparr>tokenValue := fst (scanNumber inp (scanStart s)), token := NumericLiteral\<rparr>"
  by (auto simp add: scanNext_def scanStart_def Let_def case_prod_beta)

text \<open>The characters on which \<open>scanNext\<close> reaches the \<open>default\<close> branch of its switch.\<close>

definition wordStart :: "nat \<Rightarrow> bool" where
  "wordStart c \<longleftrightarrow>
     \<not> isWhitespace (Some c) \<and> \<not> isLineBreak (Some c) \<and> \<not> isDigit (Some c)
     \<and> c \<notin> {CharacterCodes_openBrace, CharacterCodes_closeBrace, CharacterCodes_openBracket,
              CharacterCodes_closeBracket, CharacterCodes_colon, CharacterCodes_comma,
              CharacterCodes_doubleQuote, CharacterCodes_slash, CharacterCodes_minus}"

lemma scanNext_word:
  "pos s < length inp \<Longrightarrow> wordStart (inp ! pos s) \<Longrightarrow>
   scanNext inp s =
     (let p = scanUnknownContent inp (pos s); v = substring inp (pos s) p in
      if pos s \<noteq> p then
        (scanStart s)\<lparr>pos := p, tokenValue := v,
           token := (if v = str ''true'' then TrueKeyword
                     else if v = str ''false'' then FalseKeyword
                     else if v = str ''null'' then NullKeyword
                     else Unknown)\<rparr>
      else
        (scanStart s)\<lparr>tokenValue := (case charCodeAt inp p of Some c \<Rightarrow> fromCharCode c | None \<Rightarrow> [0]),
           pos := p + 1, token := Unknown\<rparr>)"
  unfolding wordStart_def
  by (simp add: scanNext_def scanStart_def Let_def del: isWhitespace.simps isLineBreak.simps isDigit.simps)

lemma scanNext_cases [consumes 1, case_names ws lb punct quote slash minus digit word]:
  assumes "pos s < length inp"
  obtains (ws) "isWhitespace (Some (inp ! pos s))"
    | (lb) "\<not> isWhitespace (Some (inp ! pos s))" "isLineBreak (Some (inp ! pos s))"
    | (punct) "inp ! pos s \<in> {CharacterCodes_openBrace, CharacterCodes_closeBrace, CharacterCodes_openBracket,
              CharacterCodes_closeBracket, CharacterCodes_colon, CharacterCodes_comma}"
    | (quote) "inp ! pos s = CharacterCodes_doubleQuote"
    | (slash) "inp ! pos s = CharacterCodes_slash"
    | (minus) "inp ! pos s = CharacterCodes_minus"
    | (digit) "isDigit (Some (inp ! pos s))"
    | (word) "wordStart (inp ! pos s)"
  unfolding wordStart_def by blast


lemma scanNext_progress:
  assumes "pos s < length inp"
  shows "pos s < pos (scanNext inp s) \<and> token (scanNext inp s) \<noteq> EOF"
  using assms
proof (cases rule: scanNext_cases)
  case ws
  with assms show ?thesis
    by (simp add: scanNext_whitespace scanWhitespace_gt del: isWhitespace.simps)
next
  case lb
  with assms show ?thesis
    using scanNext_lineBreak [of s inp] by simp
next
  case punct
  with assms show ?thesis
    by (auto simp: scanNext_punctuation scanStart_def)
next
  case quote
  have "pos s < pos (snd (scanString inp ((scanStart s)\<lparr>pos := pos s + 1\<rparr>)))"
    unfolding scanString_def
    using scanString_loop_ge [of "(scanStart s)\<lparr>pos := pos s + 1\<rparr>" inp "[]" "pos s + 1"]
    by (simp add: scanStart_def)
  with assms quote show ?thesis
    by (simp add: scanNext_string)
next
  case slash
  have "pos s < scanLineComment inp (pos s + 2)"
    using scanLineComment_ge [of "pos s + 2" inp] by simp
  moreover have "pos s < fst (scanBlockComment inp (length inp - 1) (pos s + 2))"
    using scanBlockComment_ge [of "pos s + 2" inp "length inp - 1"] by simp
  ultimately show ?thesis
    using assms slash by (simp add: scanNext_slash scanStart_def)
next
  case minus
  have "pos s < pos (snd (scanNumber inp ((scanStart s)\<lparr>tokenValue := [CharacterCodes_minus], pos := pos s + 1\<rparr>)))"
    using scanNumber_gt [of "(scanStart s)\<lparr>tokenValue := [CharacterCodes_minus], pos := pos s + 1\<rparr>" inp]
    by (simp add: scanStart_def)
  with assms minus show ?thesis
    by (simp add: scanNext_minus scanStart_def del: isDigit.simps)
next
  case digit
  have "pos s < pos (snd (scanNumber inp (scanStart s)))"
    using scanNumber_gt [of "scanStart s" inp] by (simp add: scanStart_def)
  with assms digit show ?thesis
    by (simp add: scanNext_digit del: isDigit.simps)
next
  case word
  have "pos s \<le> scanUnknownContent inp (pos s)"
    by (rule scanUnknownContent_ge)
  with assms word show ?thesis
    by (simp add: scanNext_word Let_def scanStart_def)
qed

section \<open>Values\<close>

text \<open>
  The values that reach the visitor of \<open>parse\<close>: primitives, and references to the arrays
  and objects it allocates. Objects and arrays are mutable and shared (a container is
  linked into its parent when it is begun and filled afterwards), so they live in a
  store and a value refers to them by address.

  A number is modelled by the exact rational value of its lexeme. The rounding of
  \<open>JSON.parse\<close> to an IEEE double is outside the model: a lexeme beyond the precision
  or the range of a double (\<open>9007199254740993\<close>, \<open>1e400\<close>) keeps its exact value here, and
  \<open>-0\<close> is the number 0.
\<close>

datatype jsval =
    JSUndefined
  | JSNull
  | JSBoolean bool
  | JSNumber rat
  | JSString jsstring
  | JSRef nat

section \<open>The parser\<close>

datatype ParseErrorCode =
    InvalidSymbol
  | InvalidNumberFormat
  | PropertyNameExpected
  | ValueExpected
  | ColonExpected
  | CommaExpected
  | CloseBraceExpected
  | CloseBracketExpected
  | EndOfFileExpected
  | InvalidCommentToken
  | UnexpectedEndOfComment
  | UnexpectedEndOfString
  | UnexpectedEndOfNumber
  | InvalidUnicode
  | InvalidEscapeCharacter
  | InvalidCharacter

record ParseError =
  error :: ParseErrorCode
  offset :: nat
  errorLength :: nat

text \<open>Every option may be absent (\<open>undefined\<close>); the parser only tests truthiness.\<close>

record ParseOptions =
  disallowComments :: "bool option"
  allowTrailingComma :: "bool option"
  allowEmptyContent :: "bool option"

definition ParseOptions_DEFAULT :: ParseOptions where
  "ParseOptions_DEFAULT =
     \<lparr>disallowComments = None, allowTrailingComma = Some True, allowEmptyContent = None\<rparr>"

fun truthy :: "bool option \<Rightarrow> bool" where
  "truthy None = False"
| "truthy (Some b) = b"

text \<open>
  A visitor: every callback is optional and acts on the state \<open>'v\<close> that the caller's
  closures share. Each callback receives the offset and the length of the current token.
\<close>

record 'v JSONVisitor =
  onObjectBegin :: "(nat \<Rightarrow> nat \<Rightarrow> 'v \<Rightarrow> 'v) option"
  onObjectProperty :: "(jsstring \<Rightarrow> nat \<Rightarrow> nat \<Rightarrow> 'v \<Rightarrow> 'v) option"
  onObjectEnd :: "(nat \<Rightarrow> nat \<Rightarrow> 'v \<Rightarrow> 'v) option"
  onArrayBegin :: "(nat \<Rightarrow> nat \<Rightarrow> 'v \<Rightarrow> 'v) option"
  onArrayEnd :: "(nat \<Rightarrow> nat \<Rightarrow> 'v \<Rightarrow> 'v) option"
  onLiteralValue :: "(jsval \<Rightarrow> nat \<Rightarrow> nat \<Rightarrow> 'v \<Rightarrow> 'v) option"
  onSeparator :: "(jsstring \<Rightarrow> nat \<Rightarrow> nat \<Rightarrow> 'v \<Rightarrow> 'v) option"
  onComment :: "(nat \<Rightarrow> nat \<Rightarrow> 'v \<Rightarrow> 'v) option"
  onError :: "(ParseErrorCode \<Rightarrow> nat \<Rightarrow> nat \<Rightarrow> 'v \<Rightarrow> 'v) option"

text \<open>The state of a run of \<open>visit\<close>: its scanner and the visitor's state.\<close>

record 'v visitState =
  scn :: scanner
  vst :: 'v

definition toNoArgVisit :: "(nat \<Rightarrow> nat \<Rightarrow> 'v \<Rightarrow> 'v) option \<Rightarrow> 'v visitState \<Rightarrow> 'v visitState" where
  "toNoArgVisit visitFunction st =
     (case visitFunction of
        Some f \<Rightarrow> st\<lparr>vst := f (tokenOffset (scn st)) (getTokenLength (scn st)) (vst st)\<rparr>
      | None \<Rightarrow> st)"

definition toOneArgVisit ::
  "('a \<Rightarrow> nat \<Rightarrow> nat \<Rightarrow> 'v \<Rightarrow> 'v) option \<Rightarrow> 'a \<Rightarrow> 'v visitState \<Rightarrow> 'v visitState" where
  "toOneArgVisit visitFunction arg st =
     (case visitFunction of
        Some f \<Rightarrow> st\<lparr>vst := f arg (tokenOffset (scn st)) (getTokenLength (scn st)) (vst st)\<rparr>
      | None \<Rightarrow> st)"

text \<open>
  One turn of the \<open>while (true)\<close> of \<open>visit\<close>'s \<open>scanNext\<close>: scan a token, report its scan
  error, then report a comment or an unknown symbol. \<open>handleError\<close> is always called
  there with empty skip lists, where it only calls \<open>onError\<close>.
\<close>

definition visit_scanStep ::
  "jsstring \<Rightarrow> 'v JSONVisitor \<Rightarrow> ParseOptions \<Rightarrow> 'v visitState \<Rightarrow> 'v visitState" where
  "visit_scanStep text visitor options st =
     (let st1 = st\<lparr>scn := scan text (scn st)\<rparr>;
          st2 = (case scanError (scn st1) of
                   ScanError_InvalidUnicode \<Rightarrow> toOneArgVisit (onError visitor) InvalidUnicode st1
                 | ScanError_InvalidEscapeCharacter \<Rightarrow>
                     toOneArgVisit (onError visitor) InvalidEscapeCharacter st1
                 | ScanError_UnexpectedEndOfNumber \<Rightarrow>
                     toOneArgVisit (onError visitor) UnexpectedEndOfNumber st1
                 | ScanError_UnexpectedEndOfComment \<Rightarrow>
                     if \<not> truthy (disallowComments options)
                     then toOneArgVisit (onError visitor) UnexpectedEndOfComment st1
                     else st1
                 | ScanError_UnexpectedEndOfString \<Rightarrow>
                     toOneArgVisit (onError visitor) UnexpectedEndOfString st1
                 | ScanError_InvalidCharacter \<Rightarrow>
                     toOneArgVisit (onError visitor) InvalidCharacter st1
                 | ScanError_None \<Rightarrow> st1)
      in
      if token (scn st2) = LineCommentTrivia \<or> token (scn st2) = BlockCommentTrivia then
        (if truthy (disallowComments options)
         then toOneArgVisit (onError visitor) InvalidCommentToken st2
         else toNoArgVisit (onComment visitor) st2)
      else if token (scn st2) = Unknown then toOneArgVisit (onError visitor) InvalidSymbol st2
      else st2)"

text \<open>The tokens on which the loop goes round again; on every other token it returns.\<close>

fun scanAgain :: "SyntaxKind \<Rightarrow> bool" where
  "scanAgain LineCommentTrivia = True"
| "scanAgain BlockCommentTrivia = True"
| "scanAgain Unknown = True"
| "scanAgain Trivia = True"
| "scanAgain LineBreakTrivia = True"
| "scanAgain _ = False"

lemma toNoArgVisit_scn [simp]: "scn (toNoArgVisit f st) = scn st"
  by (simp add: toNoArgVisit_def split: option.splits)

lemma toOneArgVisit_scn [simp]: "scn (toOneArgVisit f a st) = scn st"
  by (simp add: toOneArgVisit_def split: option.splits)

lemma visit_scanStep_scn [simp]: "scn (visit_scanStep inp visitor options st) = scan inp (scn st)"
  by (simp add: visit_scanStep_def Let_def split: ScanError.splits)

lemma scan_progress:
  "token (scan inp s) \<noteq> EOF \<Longrightarrow> pos s < length inp \<and> pos s < pos (scan inp s)"
  using scanNext_progress [of s inp] scanNext_EOF [of inp s]
  by (cases "pos s < length inp") (auto simp: scan_def)

function visit_scanNext ::
  "jsstring \<Rightarrow> 'v JSONVisitor \<Rightarrow> ParseOptions \<Rightarrow> 'v visitState \<Rightarrow> 'v visitState" where
  "visit_scanNext text visitor options st =
     (let st' = visit_scanStep text visitor options st in
      if scanAgain (token (scn st')) then visit_scanNext text visitor options st' else st')"
  by pat_completeness auto
termination
proof (relation "measure (\<lambda>(text, visitor, options, st). length text - pos (scn st))", goal_cases)
  case 1
  show ?case by simp
next
  case (2 inp visitor options st st')
  then have "token (scan inp (scn st)) \<noteq> EOF"
    by auto
  then show ?case
    using 2 scan_progress [of inp "scn st"] by auto
qed

declare visit_scanNext.simps [simp del]

text \<open>
  What is left to scan: the characters after the position, and the current token unless
  it is the end of the input.
\<close>

definition remaining :: "jsstring \<Rightarrow> scanner \<Rightarrow> nat" where
  "remaining text s = (length text - pos s) + (if token s = EOF then 0 else 1)"

lemma remaining_scan_le: "remaining inp (scan inp s) \<le> Suc (length inp - pos s)"
  using scanNext_progress [of s inp] scanNext_EOF [of inp s]
  by (cases "pos s < length inp") (auto simp: scan_def remaining_def)

lemma remaining_scan_less:
  "token (scan inp s) \<noteq> EOF \<Longrightarrow> remaining inp (scan inp s) \<le> length inp - pos s"
  using scanNext_progress [of s inp] scanNext_EOF [of inp s]
  by (cases "pos s < length inp") (auto simp: scan_def remaining_def)

lemma visit_scanNext_remaining_aux:
  "remaining inp (scn (visit_scanNext inp visitor options st)) \<le> length inp - pos (scn st)"
proof (induction inp visitor options st rule: visit_scanNext.induct)
  case (1 inp visitor options st)
  show ?case
  proof (cases "scanAgain (token (scan inp (scn st)))")
    case True
    then have ne: "token (scan inp (scn st)) \<noteq> EOF" by auto
    have "remaining inp (scn (visit_scanNext inp visitor options (visit_scanStep inp visitor options st)))
          \<le> length inp - pos (scan inp (scn st))"
      using 1 [OF refl] True by simp
    also have "\<dots> \<le> length inp - pos (scn st)"
      using scan_progress [OF ne] by arith
    finally show ?thesis
      using True by (subst visit_scanNext.simps) (simp add: Let_def)
  next
    case False
    have "remaining inp (scan inp (scn st)) \<le> length inp - pos (scn st)"
    proof (cases "token (scan inp (scn st)) = EOF")
      case True
      then show ?thesis
        using scanNext_progress [of "scn st" inp] scanNext_EOF [of inp "scn st"]
        by (cases "pos (scn st) < length inp") (auto simp: scan_def remaining_def)
    next
      case False
      then show ?thesis by (rule remaining_scan_less)
    qed
    then show ?thesis
      using False by (subst visit_scanNext.simps) (simp add: Let_def)
  qed
qed

lemma visit_scanNext_remaining:
  "token (scn st) \<noteq> EOF \<Longrightarrow>
   remaining inp (scn (visit_scanNext inp visitor options st)) < remaining inp (scn st)"
  using visit_scanNext_remaining_aux [of inp visitor options st]
  by (simp add: remaining_def)

lemma visit_scanNext_remaining_le:
  "remaining inp (scn (visit_scanNext inp visitor options st)) \<le> remaining inp (scn st)"
  using visit_scanNext_remaining_aux [of inp visitor options st]
  by (simp add: remaining_def)

lemma visit_scanNext_token:
  "\<not> scanAgain (token (scn (visit_scanNext inp visitor options st)))"
proof (induction inp visitor options st rule: visit_scanNext.induct)
  case (1 inp visitor options st)
  then show ?case
    by (subst visit_scanNext.simps) (simp add: Let_def)
qed

text \<open>
  \<open>handleError\<close>: the loop that skips tokens, then the function. The local \<open>token\<close> of
  the source is always the scanner's current token.
\<close>

function handleError_skip ::
  "jsstring \<Rightarrow> 'v JSONVisitor \<Rightarrow> ParseOptions \<Rightarrow> SyntaxKind list \<Rightarrow> SyntaxKind list
   \<Rightarrow> 'v visitState \<Rightarrow> 'v visitState" where
  "handleError_skip text visitor options skipUntilAfter skipUntil st =
     (if token (scn st) \<noteq> EOF then
        (if token (scn st) \<in> set skipUntilAfter then visit_scanNext text visitor options st
         else if token (scn st) \<in> set skipUntil then st
         else handleError_skip text visitor options skipUntilAfter skipUntil
                (visit_scanNext text visitor options st))
      else st)"
  by pat_completeness auto
termination
  by (relation "measure (\<lambda>(text, visitor, options, skipUntilAfter, skipUntil, st). remaining text (scn st))")
     (auto simp: visit_scanNext_remaining)

declare handleError_skip.simps [simp del]

definition handleError ::
  "jsstring \<Rightarrow> 'v JSONVisitor \<Rightarrow> ParseOptions \<Rightarrow> ParseErrorCode \<Rightarrow> SyntaxKind list
   \<Rightarrow> SyntaxKind list \<Rightarrow> 'v visitState \<Rightarrow> 'v visitState" where
  "handleError text visitor options err skipUntilAfter skipUntil st =
     (let st1 = toOneArgVisit (onError visitor) err st in
      if length skipUntilAfter + length skipUntil > 0
      then handleError_skip text visitor options skipUntilAfter skipUntil st1
      else st1)"

text \<open>
  \<open>JSON.parse\<close>, as far as \<open>parseLiteral\<close> uses it: on the value of a numeric token, which
  starts with a digit or with a minus sign. On such a text \<open>JSON.parse\<close> returns a number
  when the whole text is a JSON number and throws a \<open>SyntaxError\<close> otherwise (\<open>None\<close>).
\<close>

definition digitsValue :: "jsstring \<Rightarrow> nat" where
  "digitsValue ds = foldl (\<lambda>a c. 10 * a + (c - CharacterCodes_0)) 0 ds"

definition isDigitCode :: "nat \<Rightarrow> bool" where
  "isDigitCode c = isDigit (Some c)"

definition JSON_parse_exponent :: "rat \<Rightarrow> jsstring \<Rightarrow> rat option" where
  "JSON_parse_exponent m r =
     (case r of
        [] \<Rightarrow> Some m
      | c # r1 \<Rightarrow>
          if c = CharacterCodes_e \<or> c = CharacterCodes_E then
            (let negative = (r1 \<noteq> [] \<and> hd r1 = CharacterCodes_minus);
                 ds = (if r1 \<noteq> [] \<and> (hd r1 = CharacterCodes_plus \<or> hd r1 = CharacterCodes_minus)
                       then tl r1 else r1)
             in if ds \<noteq> [] \<and> list_all isDigitCode ds
                then Some (if negative then m / 10 ^ digitsValue ds else m * 10 ^ digitsValue ds)
                else None)
          else None)"

definition JSON_parse_fraction :: "rat \<Rightarrow> jsstring \<Rightarrow> rat option" where
  "JSON_parse_fraction m r =
     (case r of
        [] \<Rightarrow> Some m
      | c # r1 \<Rightarrow>
          if c = CharacterCodes_dot then
            (let fp = takeWhile isDigitCode r1 in
             if fp = [] then None
             else JSON_parse_exponent (m + of_nat (digitsValue fp) / 10 ^ length fp)
                    (dropWhile isDigitCode r1))
          else JSON_parse_exponent m r)"

definition JSON_parse_unsigned :: "jsstring \<Rightarrow> rat option" where
  "JSON_parse_unsigned r =
     (let ip = takeWhile isDigitCode r in
      if ip = [] \<or> (length ip > 1 \<and> hd ip = CharacterCodes_0) then None
      else JSON_parse_fraction (of_nat (digitsValue ip)) (dropWhile isDigitCode r))"

definition JSON_parse :: "jsstring \<Rightarrow> jsval option" where
  "JSON_parse lexeme =
     (case lexeme of
        [] \<Rightarrow> None
      | c # r \<Rightarrow>
          if c = CharacterCodes_minus
          then map_option (\<lambda>x. JSNumber (- x)) (JSON_parse_unsigned r)
          else map_option JSNumber (JSON_parse_unsigned lexeme))"

definition parseString ::
  "jsstring \<Rightarrow> 'v JSONVisitor \<Rightarrow> ParseOptions \<Rightarrow> bool \<Rightarrow> 'v visitState \<Rightarrow> bool \<times> 'v visitState" where
  "parseString text visitor options isValue st =
     (let v = tokenValue (scn st);
          st1 = (if isValue then toOneArgVisit (onLiteralValue visitor) (JSString v) st
                 else toOneArgVisit (onObjectProperty visitor) v st)
      in (True, visit_scanNext text visitor options st1))"

definition parseLiteral ::
  "jsstring \<Rightarrow> 'v JSONVisitor \<Rightarrow> ParseOptions \<Rightarrow> 'v visitState \<Rightarrow> bool \<times> 'v visitState" where
  "parseLiteral text visitor options st =
     (if token (scn st) = NumericLiteral then
        (let (v, st1) =
               (case JSON_parse (tokenValue (scn st)) of
                  Some (JSNumber x) \<Rightarrow> (JSNumber x, st)
                | Some _ \<Rightarrow>
                    (JSNumber 0, handleError text visitor options InvalidNumberFormat [] [] st)
                | None \<Rightarrow>
                    (JSNumber 0, handleError text visitor options InvalidNumberFormat [] [] st))
         in (True, visit_scanNext text visitor options
                     (toOneArgVisit (onLiteralValue visitor) v st1)))
      else if token (scn st) = NullKeyword then
        (True, visit_scanNext text visitor options
                 (toOneArgVisit (onLiteralValue visitor) JSNull st))
      else if token (scn st) = TrueKeyword then
        (True, visit_scanNext text visitor options
                 (toOneArgVisit (onLiteralValue visitor) (JSBoolean True) st))
      else if token (scn st) = FalseKeyword then
        (True, visit_scanNext text visitor options
                 (toOneArgVisit (onLiteralValue visitor) (JSBoolean False) st))
      else (False, st))"

text \<open>
  The grammar rules call each other without a bound on the nesting. Each call takes one
  unit of fuel, and \<open>None\<close> is a run that needs more; the two \<open>while\<close> loops are
  \<open>parseObject_loop\<close> and \<open>parseArray_loop\<close>, which carry \<open>needsComma\<close>.
\<close>

function parseValue ::
    "nat \<Rightarrow> jsstring \<Rightarrow> 'v JSONVisitor \<Rightarrow> ParseOptions \<Rightarrow> 'v visitState
     \<Rightarrow> (bool \<times> 'v visitState) option"
  and parseProperty ::
    "nat \<Rightarrow> jsstring \<Rightarrow> 'v JSONVisitor \<Rightarrow> ParseOptions \<Rightarrow> 'v visitState
     \<Rightarrow> (bool \<times> 'v visitState) option"
  and parseObject_loop ::
    "nat \<Rightarrow> jsstring \<Rightarrow> 'v JSONVisitor \<Rightarrow> ParseOptions \<Rightarrow> bool \<Rightarrow> 'v visitState
     \<Rightarrow> 'v visitState option"
  and parseObject ::
    "nat \<Rightarrow> jsstring \<Rightarrow> 'v JSONVisitor \<Rightarrow> ParseOptions \<Rightarrow> 'v visitState
     \<Rightarrow> (bool \<times> 'v visitState) option"
  and parseArray_loop ::
    "nat \<Rightarrow> jsstring \<Rightarrow> 'v JSONVisitor \<Rightarrow> ParseOptions \<Rightarrow> bool \<Rightarrow> 'v visitState
     \<Rightarrow> 'v visitState option"
  and parseArray ::
    "nat \<Rightarrow> jsstring \<Rightarrow> 'v JSONVisitor \<Rightarrow> ParseOptions \<Rightarrow> 'v visitState
     \<Rightarrow> (bool \<times> 'v visitState) option"
where
  "parseValue 0 text visitor options st = None"
| "parseValue (Suc n) text visitor options st =
     (if token (scn st) = OpenBracketToken then parseArray n text visitor options st
      else if token (scn st) = OpenBraceToken then parseObject n text visitor options st
      else if token (scn st) = StringLiteral then Some (parseString text visitor options True st)
      else Some (parseLiteral text visitor options st))"
| "parseProperty 0 text visitor options st = None"
| "parseProperty (Suc n) text visitor options st =
     (if token (scn st) \<noteq> StringLiteral then
        Some (False, handleError text visitor options PropertyNameExpected []
                       [CloseBraceToken, CommaToken] st)
      else
        (let st1 = snd (parseString text visitor options False st) in
         if token (scn st1) = ColonToken then
           (case parseValue n text visitor options
                   (visit_scanNext text visitor options
                      (toOneArgVisit (onSeparator visitor) [CharacterCodes_colon] st1)) of
              None \<Rightarrow> None
            | Some (ok, st2) \<Rightarrow>
                Some (True,
                      if \<not> ok
                      then handleError text visitor options ValueExpected []
                             [CloseBraceToken, CommaToken] st2
                      else st2))
         else
           Some (True, handleError text visitor options ColonExpected []
                         [CloseBraceToken, CommaToken] st1)))"
| "parseObject_loop 0 text visitor options needsComma st = None"
| "parseObject_loop (Suc n) text visitor options needsComma st =
     (if token (scn st) \<noteq> CloseBraceToken \<and> token (scn st) \<noteq> EOF then
        (let st1 =
               (if token (scn st) = CommaToken then
                  visit_scanNext text visitor options
                    (toOneArgVisit (onSeparator visitor) [CharacterCodes_comma]
                       (if \<not> needsComma
                        then handleError text visitor options ValueExpected [] [] st
                        else st))
                else if needsComma
                then handleError text visitor options CommaExpected [] [] st
                else st)
         in
         if token (scn st) = CommaToken \<and> token (scn st1) = CloseBraceToken
            \<and> truthy (allowTrailingComma options)
         then Some st1
         else
           (case parseProperty n text visitor options st1 of
              None \<Rightarrow> None
            | Some (ok, st2) \<Rightarrow>
                parseObject_loop n text visitor options True
                  (if \<not> ok
                   then handleError text visitor options ValueExpected []
                          [CloseBraceToken, CommaToken] st2
                   else st2)))
      else Some st)"
| "parseObject 0 text visitor options st = None"
| "parseObject (Suc n) text visitor options st =
     (case parseObject_loop n text visitor options False
             (visit_scanNext text visitor options (toNoArgVisit (onObjectBegin visitor) st)) of
        None \<Rightarrow> None
      | Some st1 \<Rightarrow>
          (let st2 = toNoArgVisit (onObjectEnd visitor) st1 in
           Some (True,
                 if token (scn st2) \<noteq> CloseBraceToken
                 then handleError text visitor options CloseBraceExpected [CloseBraceToken] [] st2
                 else visit_scanNext text visitor options st2)))"
| "parseArray_loop 0 text visitor options needsComma st = None"
| "parseArray_loop (Suc n) text visitor options needsComma st =
     (if token (scn st) \<noteq> CloseBracketToken \<and> token (scn st) \<noteq> EOF then
        (let st1 =
               (if token (scn st) = CommaToken then
                  visit_scanNext text visitor options
                    (toOneArgVisit (onSeparator visitor) [CharacterCodes_comma]
                       (if \<not> needsComma
                        then handleError text visitor options ValueExpected [] [] st
                        else st))
                else if needsComma
                then handleError text visitor options CommaExpected [] [] st
                else st)
         in
         if token (scn st) = CommaToken \<and> token (scn st1) = CloseBracketToken
            \<and> truthy (allowTrailingComma options)
         then Some st1
         else
           (case parseValue n text visitor options st1 of
              None \<Rightarrow> None
            | Some (ok, st2) \<Rightarrow>
                parseArray_loop n text visitor options True
                  (if \<not> ok
                   then handleError text visitor options ValueExpected []
                          [CloseBracketToken, CommaToken] st2
                   else st2)))
      else Some st)"
| "parseArray 0 text visitor options st = None"
| "parseArray (Suc n) text visitor options st =
     (case parseArray_loop n text visitor options False
             (visit_scanNext text visitor options (toNoArgVisit (onArrayBegin visitor) st)) of
        None \<Rightarrow> None
      | Some st1 \<Rightarrow>
          (let st2 = toNoArgVisit (onArrayEnd visitor) st1 in
           Some (True,
                 if token (scn st2) \<noteq> CloseBracketToken
                 then handleError text visitor options CloseBracketExpected [CloseBracketToken] [] st2
                 else visit_scanNext text visitor options st2)))"

  by pat_completeness auto
termination
  by (relation "measure (\<lambda>x. case x of
        Inl (Inl (n, _)) \<Rightarrow> n
      | Inl (Inr (Inl (n, _))) \<Rightarrow> n
      | Inl (Inr (Inr (n, _))) \<Rightarrow> n
      | Inr (Inl (n, _)) \<Rightarrow> n
      | Inr (Inr (Inl (n, _))) \<Rightarrow> n
      | Inr (Inr (Inr (n, _))) \<Rightarrow> n)") simp_all

text \<open>\<open>visit\<close>, with the fuel of its call of \<open>parseValue\<close>.\<close>

definition visit_within ::
  "nat \<Rightarrow> jsstring \<Rightarrow> 'v JSONVisitor \<Rightarrow> ParseOptions \<Rightarrow> 'v \<Rightarrow> (bool \<times> 'v) option" where
  "visit_within fuel text visitor options v0 =
     (let st = visit_scanNext text visitor options \<lparr>scn = createScanner, vst = v0\<rparr> in
      if token (scn st) = EOF then
        (if truthy (allowEmptyContent options) then Some (True, vst st)
         else Some (False, vst (handleError text visitor options ValueExpected [] [] st)))
      else
        (case parseValue fuel text visitor options st of
           None \<Rightarrow> None
         | Some (ok, st1) \<Rightarrow>
             if \<not> ok then Some (False, vst (handleError text visitor options ValueExpected [] [] st1))
             else if token (scn st1) \<noteq> EOF
             then Some (True, vst (handleError text visitor options EndOfFileExpected [] [] st1))
             else Some (True, vst st1)))"

text \<open>
  \<open>visit\<close> itself: four units of fuel for each character and six more are always enough
  (\<open>visit_total\<close> below), so \<open>None\<close> is never its result.
\<close>

definition visit ::
  "jsstring \<Rightarrow> 'v JSONVisitor \<Rightarrow> ParseOptions \<Rightarrow> 'v \<Rightarrow> (bool \<times> 'v) option" where
  "visit text visitor options v0 = visit_within (4 * length text + 6) text visitor options v0"

section \<open>The events of a run\<close>

datatype event =
    ObjectBegin nat nat
  | ObjectProperty jsstring nat nat
  | ObjectEnd nat nat
  | ArrayBegin nat nat
  | ArrayEnd nat nat
  | LiteralValue jsval nat nat
  | Separator jsstring nat nat
  | Comment nat nat
  | Error ParseErrorCode nat nat

text \<open>The visitor that has every callback and records each call, in order.\<close>

definition recorder :: "event list JSONVisitor" where
  "recorder =
     \<lparr>onObjectBegin = Some (\<lambda>off len es. es @ [ObjectBegin off len]),
      onObjectProperty = Some (\<lambda>name off len es. es @ [ObjectProperty name off len]),
      onObjectEnd = Some (\<lambda>off len es. es @ [ObjectEnd off len]),
      onArrayBegin = Some (\<lambda>off len es. es @ [ArrayBegin off len]),
      onArrayEnd = Some (\<lambda>off len es. es @ [ArrayEnd off len]),
      onLiteralValue = Some (\<lambda>v off len es. es @ [LiteralValue v off len]),
      onSeparator = Some (\<lambda>c off len es. es @ [Separator c off len]),
      onComment = Some (\<lambda>off len es. es @ [Comment off len]),
      onError = Some (\<lambda>e off len es. es @ [Error e off len])\<rparr>"

definition events :: "jsstring \<Rightarrow> ParseOptions \<Rightarrow> (bool \<times> event list) option" where
  "events text options = visit text recorder options []"

section \<open>The tree builder of parse\<close>

text \<open>
  The store. An array holds its elements. An object holds its own properties, in the
  order of their creation, and its prototype: \<open>Object.prototype\<close> for an object made by
  \<open>{}\<close>, until an assignment to \<open>__proto__\<close> changes it.
\<close>

datatype jsproto = ObjectPrototype | NullPrototype | ProtoRef nat

datatype jsobj =
    JSArray "jsval list"
  | JSObject "(jsstring \<times> jsval) list" jsproto

text \<open>
  The assignment \<open>o[k] = v\<close> on an object made by \<open>{}\<close>. A property that \<open>o\<close> owns is
  overwritten in place. Otherwise the prototype chain decides: the only inherited
  property that is not a writable data property is the accessor \<open>__proto__\<close> of
  \<open>Object.prototype\<close>, whose setter replaces the prototype of \<open>o\<close> when \<open>v\<close> is an object
  or \<open>null\<close> and does nothing for any other \<open>v\<close>; in every other case \<open>o\<close> gets a new own
  property. \<open>inheritsProtoSetter\<close> walks the chain: an array on it leads to
  \<open>Array.prototype\<close> and from there to \<open>Object.prototype\<close>; an object that owns a property
  \<open>__proto__\<close>, or a chain that ends in \<open>null\<close>, hides the accessor. The first argument
  bounds the walk by the number of objects in the store.
\<close>

fun defineProperty :: "jsstring \<Rightarrow> jsval \<Rightarrow> (jsstring \<times> jsval) list \<Rightarrow> (jsstring \<times> jsval) list" where
  "defineProperty k v [] = [(k, v)]"
| "defineProperty k v ((k', v') # ps) =
     (if k = k' then (k, v) # ps else (k', v') # defineProperty k v ps)"

fun inheritsProtoSetter :: "nat \<Rightarrow> jsobj list \<Rightarrow> jsproto \<Rightarrow> bool" where
  "inheritsProtoSetter n h ObjectPrototype = True"
| "inheritsProtoSetter n h NullPrototype = False"
| "inheritsProtoSetter 0 h (ProtoRef b) = False"
| "inheritsProtoSetter (Suc n) h (ProtoRef b) =
     (if b < length h then
        (case h ! b of
           JSArray xs \<Rightarrow> True
         | JSObject props p \<Rightarrow>
             if str ''__proto__'' \<in> fst ` set props then False else inheritsProtoSetter n h p)
      else False)"

definition assignProperty :: "jsobj list \<Rightarrow> nat \<Rightarrow> jsstring \<Rightarrow> jsval \<Rightarrow> jsobj list" where
  "assignProperty h a k v =
     (case h ! a of
        JSArray xs \<Rightarrow> h
      | JSObject props p \<Rightarrow>
          if k \<in> fst ` set props then h[a := JSObject (defineProperty k v props) p]
          else if k = str ''__proto__'' \<and> inheritsProtoSetter (length h) h p then
            (case v of
               JSRef b \<Rightarrow> h[a := JSObject props (ProtoRef b)]
             | JSNull \<Rightarrow> h[a := JSObject props NullPrototype]
             | _ \<Rightarrow> h)
          else h[a := JSObject (defineProperty k v props) p])"

text \<open>
  The variables that the callbacks of \<open>parse\<close> close over, with the store. A callback that
  throws (a \<open>TypeError\<close>, when a property of \<open>undefined\<close> is assigned) ends the run of
  \<open>parse\<close>: \<open>thrown\<close> records it, and no callback has an effect afterwards.
\<close>

record parseState =
  heap :: "jsobj list"
  currentProperty :: "jsstring option"
  currentParent :: jsval
  previousParents :: "jsval list"
  errors :: "ParseError list"
  thrown :: bool

text \<open>
  \<open>currentParent\<close> is a reference to an array or an object of the store, or \<open>undefined\<close>
  after \<open>pop\<close> on an empty \<open>previousParents\<close>.
\<close>

definition onValue :: "jsval \<Rightarrow> parseState \<Rightarrow> parseState" where
  "onValue v s =
     (case currentParent s of
        JSRef a \<Rightarrow>
          (if a < length (heap s) then
             (case heap s ! a of
                JSArray xs \<Rightarrow> s\<lparr>heap := (heap s)[a := JSArray (xs @ [v])]\<rparr>
              | JSObject props p \<Rightarrow>
                  (case currentProperty s of
                     None \<Rightarrow> s
                   | Some k \<Rightarrow> s\<lparr>heap := assignProperty (heap s) a k v\<rparr>))
           else s\<lparr>thrown := True\<rparr>)
      | _ \<Rightarrow>
          (case currentProperty s of
             None \<Rightarrow> s
           | Some k \<Rightarrow> s\<lparr>thrown := True\<rparr>))"

definition pop :: "jsval list \<Rightarrow> jsval \<times> jsval list" where
  "pop xs = (if xs = [] then (JSUndefined, []) else (last xs, butlast xs))"

definition parse_visitor :: "parseState JSONVisitor" where
  "parse_visitor =
     \<lparr>onObjectBegin = Some (\<lambda>off len s.
        if thrown s then s
        else
          (let object = JSRef (length (heap s));
               s1 = onValue object (s\<lparr>heap := heap s @ [JSObject [] ObjectPrototype]\<rparr>)
           in if thrown s1 then s1
              else s1\<lparr>previousParents := previousParents s1 @ [currentParent s1],
                      currentParent := object, currentProperty := None\<rparr>)),
      onObjectProperty = Some (\<lambda>name off len s.
        if thrown s then s else s\<lparr>currentProperty := Some name\<rparr>),
      onObjectEnd = Some (\<lambda>off len s.
        if thrown s then s
        else s\<lparr>currentParent := fst (pop (previousParents s)),
               previousParents := snd (pop (previousParents s))\<rparr>),
      onArrayBegin = Some (\<lambda>off len s.
        if thrown s then s
        else
          (let array = JSRef (length (heap s));
               s1 = onValue array (s\<lparr>heap := heap s @ [JSArray []]\<rparr>)
           in if thrown s1 then s1
              else s1\<lparr>previousParents := previousParents s1 @ [currentParent s1],
                      currentParent := array, currentProperty := None\<rparr>)),
      onArrayEnd = Some (\<lambda>off len s.
        if thrown s then s
        else s\<lparr>currentParent := fst (pop (previousParents s)),
               previousParents := snd (pop (previousParents s))\<rparr>),
      onLiteralValue = Some (\<lambda>v off len s. if thrown s then s else onValue v s),
      onSeparator = None,
      onComment = None,
      onError = Some (\<lambda>e off len s.
        if thrown s then s
        else s\<lparr>errors := errors s @ [\<lparr>error = e, offset = off, errorLength = len\<rparr>]\<rparr>)\<rparr>"

text \<open>
  \<open>currentParent[0]\<close>, the result of \<open>parse\<close>: the first element of the array, the
  property \<open>0\<close> of an object (its own or an inherited one), \<open>undefined\<close> when there is none.
\<close>

fun getZero :: "nat \<Rightarrow> jsobj list \<Rightarrow> nat \<Rightarrow> jsval" where
  "getZero 0 h a = JSUndefined"
| "getZero (Suc n) h a =
     (if a < length h then
        (case h ! a of
           JSArray xs \<Rightarrow> (case xs of [] \<Rightarrow> JSUndefined | x # _ \<Rightarrow> x)
         | JSObject props p \<Rightarrow>
             (case map_of props (str ''0'') of
                Some v \<Rightarrow> v
              | None \<Rightarrow> (case p of ProtoRef b \<Rightarrow> getZero n h b | _ \<Rightarrow> JSUndefined)))
      else JSUndefined)"

datatype exception = TypeError

text \<open>
  \<open>parse\<close> returns the value and leaves the errors in the array that the caller passed;
  the model returns the value, the store it refers to, and the errors.
\<close>

definition parse ::
  "jsstring \<Rightarrow> ParseError list \<Rightarrow> ParseOptions
   \<Rightarrow> (exception + jsval \<times> jsobj list \<times> ParseError list) option" where
  "parse text errs options =
     (case visit text parse_visitor options
             \<lparr>heap = [JSArray []], currentProperty = None, currentParent = JSRef 0,
              previousParents = [], errors = errs, thrown = False\<rparr> of
        None \<Rightarrow> None
      | Some (ok, s) \<Rightarrow>
          Some (if thrown s then Inl TypeError
                else
                  (case currentParent s of
                     JSRef a \<Rightarrow> Inr (getZero (Suc (length (heap s))) (heap s) a, heap s, errors s)
                   | _ \<Rightarrow> Inl TypeError)))"

section \<open>Values as trees\<close>

text \<open>
  The tree that a value of the store stands for: an array with its elements, an object
  with its own properties. \<open>JUndefined\<close> is the absent value. The depth of a tree is at
  most the size of the store, which bounds the recursion; \<open>None\<close> is a store with a cycle.
\<close>

datatype json =
    JUndefined
  | JNull
  | JBoolean bool
  | JNumber rat
  | JString jsstring
  | JArray "json list"
  | JObject "(jsstring \<times> json) list"

fun sequence :: "'a option list \<Rightarrow> 'a list option" where
  "sequence [] = Some []"
| "sequence (x # xs) =
     (case x of None \<Rightarrow> None
      | Some y \<Rightarrow> (case sequence xs of None \<Rightarrow> None | Some ys \<Rightarrow> Some (y # ys)))"

text \<open>
  The own properties of an object in the order in which ECMAScript lists them: the names
  that are array indices (canonical decimal numerals below \<open>2^32 - 1\<close>) first, ascending,
  then the other names in the order of their creation.
\<close>

definition isArrayIndex :: "jsstring \<Rightarrow> bool" where
  "isArrayIndex k \<longleftrightarrow>
     k \<noteq> [] \<and> list_all isDigitCode k \<and> (k = [CharacterCodes_0] \<or> hd k \<noteq> CharacterCodes_0)
     \<and> digitsValue k < 4294967295"

definition ownProperties :: "(jsstring \<times> 'a) list \<Rightarrow> (jsstring \<times> 'a) list" where
  "ownProperties props =
     sort_key (\<lambda>kv. digitsValue (fst kv)) (filter (\<lambda>kv. isArrayIndex (fst kv)) props)
     @ filter (\<lambda>kv. \<not> isArrayIndex (fst kv)) props"

fun tree_of :: "nat \<Rightarrow> jsobj list \<Rightarrow> jsval \<Rightarrow> json option" where
  "tree_of n h JSUndefined = Some JUndefined"
| "tree_of n h JSNull = Some JNull"
| "tree_of n h (JSBoolean b) = Some (JBoolean b)"
| "tree_of n h (JSNumber x) = Some (JNumber x)"
| "tree_of n h (JSString s) = Some (JString s)"
| "tree_of 0 h (JSRef a) = None"
| "tree_of (Suc n) h (JSRef a) =
     (if a < length h then
        (case h ! a of
           JSArray xs \<Rightarrow> map_option JArray (sequence (map (tree_of n h) xs))
         | JSObject props p \<Rightarrow>
             map_option (\<lambda>ts. JObject (zip (map fst (ownProperties props)) ts))
               (sequence (map (\<lambda>kv. tree_of n h (snd kv)) (ownProperties props))))
      else None)"

definition parse_tree ::
  "jsstring \<Rightarrow> ParseOptions \<Rightarrow> (exception + json option \<times> ParseError list) option" where
  "parse_tree text options =
     map_option (map_sum id (\<lambda>(v, h, errs). (tree_of (length h) h v, errs)))
       (parse text [] options)"

section \<open>Evaluation\<close>

text \<open>
  The equations that run the scanner and the parser on a concrete text. The rules for a
  numeral of fuel unfold one call.
\<close>

lemmas scanner_eval =
  scanNext_def scan_def Let_def scanNumber_def skipDigits.simps charCodeAt_def substring_def
  str_def createScanner_def scanString_def scanString_loop.simps scanEscape_def
  scanHexDigits_def scanHexDigits_loop.simps scanWhitespace.simps scanLineComment.simps
  scanBlockComment.simps scanUnknownContent.simps fromCharCode_def getTokenLength_def

lemmas fuel_numeral =
  parseValue.simps(2) [of "pred_numeral k", folded numeral_eq_Suc]
  parseProperty.simps(2) [of "pred_numeral k", folded numeral_eq_Suc]
  parseObject_loop.simps(2) [of "pred_numeral k", folded numeral_eq_Suc]
  parseObject.simps(2) [of "pred_numeral k", folded numeral_eq_Suc]
  parseArray_loop.simps(2) [of "pred_numeral k", folded numeral_eq_Suc]
  parseArray.simps(2) [of "pred_numeral k", folded numeral_eq_Suc]
  for k

lemmas visit_eval =
  visit_def visit_within_def handleError_def handleError_skip.simps
  visit_scanNext.simps visit_scanStep_def toNoArgVisit_def toOneArgVisit_def
  parseString_def parseLiteral_def fuel_numeral
  JSON_parse_def JSON_parse_unsigned_def JSON_parse_fraction_def JSON_parse_exponent_def
  digitsValue_def isDigitCode_def

lemmas parse_eval =
  parse_tree_def parse_def parse_visitor_def onValue_def assignProperty_def pop_def
  ownProperties_def isArrayIndex_def visit_eval scanner_eval

section \<open>Every run of visit ends\<close>

lemma visit_scanNext_less:
  "scn st' = scn st \<Longrightarrow> token (scn st) \<noteq> EOF \<Longrightarrow>
   remaining inp (scn (visit_scanNext inp visitor options st')) < remaining inp (scn st)"
  using visit_scanNext_remaining [of st' inp visitor options] by simp

lemma visit_scanNext_le:
  "scn st' = scn st \<Longrightarrow>
   remaining inp (scn (visit_scanNext inp visitor options st')) \<le> remaining inp (scn st)"
  using visit_scanNext_remaining_le [of inp visitor options st'] by simp

lemma handleError_skip_remaining_le:
  "remaining inp (scn (handleError_skip inp visitor options xs ys st)) \<le> remaining inp (scn st)"
proof (induction inp visitor options xs ys st rule: handleError_skip.induct)
  case (1 inp visitor options xs ys st)
  show ?case
  proof (cases "token (scn st) \<noteq> EOF \<and> token (scn st) \<notin> set xs \<and> token (scn st) \<notin> set ys")
    case True
    then have "remaining inp (scn (handleError_skip inp visitor options xs ys
                  (visit_scanNext inp visitor options st)))
               \<le> remaining inp (scn (visit_scanNext inp visitor options st))"
      using 1 by simp
    also have "\<dots> \<le> remaining inp (scn st)"
      by (rule visit_scanNext_remaining_le)
    finally show ?thesis
      using True by (subst handleError_skip.simps) simp
  next
    case False
    then show ?thesis
      by (subst handleError_skip.simps) (auto simp: visit_scanNext_remaining_le)
  qed
qed

lemma handleError_remaining_le:
  "remaining inp (scn (handleError inp visitor options e xs ys st)) \<le> remaining inp (scn st)"
  using handleError_skip_remaining_le [of inp visitor options xs ys "toOneArgVisit (onError visitor) e st"]
  by (simp add: handleError_def Let_def)

lemma handleError_remaining_less:
  assumes "token (scn st) \<noteq> EOF" and "token (scn st) \<notin> set ys" and "ys \<noteq> []"
  shows "remaining inp (scn (handleError inp visitor options e [] ys st)) < remaining inp (scn st)"
proof -
  let ?st1 = "toOneArgVisit (onError visitor) e st"
  have "handleError_skip inp visitor options [] ys ?st1 =
          handleError_skip inp visitor options [] ys (visit_scanNext inp visitor options ?st1)"
    using assms by (subst handleError_skip.simps) simp
  then have "handleError inp visitor options e [] ys st =
          handleError_skip inp visitor options [] ys (visit_scanNext inp visitor options ?st1)"
    using assms by (simp add: handleError_def Let_def)
  moreover have "remaining inp (scn (visit_scanNext inp visitor options ?st1)) < remaining inp (scn st)"
    using assms(1) by (intro visit_scanNext_less) simp_all
  ultimately show ?thesis
    using handleError_skip_remaining_le
      [of inp visitor options "[]" ys "visit_scanNext inp visitor options ?st1"]
    by simp
qed

lemma handleError_skip_EOF:
  "token (scn st) = EOF \<Longrightarrow> handleError_skip inp visitor options xs ys st = st"
  by (subst handleError_skip.simps) simp

lemma handleError_simple:
  "token (scn st) = EOF \<or> (xs = [] \<and> ys = []) \<Longrightarrow>
   handleError inp visitor options e xs ys st = toOneArgVisit (onError visitor) e st"
  by (auto simp: handleError_def Let_def handleError_skip_EOF)

lemma handleError_scn_same:
  "token (scn st) = EOF \<or> (xs = [] \<and> ys = []) \<Longrightarrow>
   scn (handleError inp visitor options e xs ys st) = scn st"
  by (simp add: handleError_simple)

lemma parseString_remaining:
  "token (scn st) \<noteq> EOF \<Longrightarrow>
   remaining inp (scn (snd (parseString inp visitor options isValue st))) < remaining inp (scn st)"
  by (simp add: parseString_def Let_def visit_scanNext_less)

lemma parseLiteral_remaining:
  "(fst (parseLiteral inp visitor options st) \<longrightarrow>
      remaining inp (scn (snd (parseLiteral inp visitor options st))) < remaining inp (scn st))
   \<and> (\<not> fst (parseLiteral inp visitor options st) \<longrightarrow>
      snd (parseLiteral inp visitor options st) = st)"
  by (auto simp: parseLiteral_def Let_def handleError_scn_same
      split: option.splits jsval.splits intro!: visit_scanNext_less)

text \<open>
  What enough fuel gives, rule by rule: a result, with no more left to scan than before,
  and less when the rule succeeded.
\<close>

definition valueEnds ::
  "nat \<Rightarrow> jsstring \<Rightarrow> 'v JSONVisitor \<Rightarrow> ParseOptions \<Rightarrow> bool" where
  "valueEnds n inp visitor options \<longleftrightarrow>
     (\<forall>st. 3 * remaining inp (scn st) + 1 \<le> n \<longrightarrow>
        (\<exists>ok st'. parseValue n inp visitor options st = Some (ok, st')
           \<and> remaining inp (scn st') \<le> remaining inp (scn st)
           \<and> (ok \<longrightarrow> remaining inp (scn st') < remaining inp (scn st))
           \<and> (\<not> ok \<longrightarrow> st' = st)))"

definition propertyEnds ::
  "nat \<Rightarrow> jsstring \<Rightarrow> 'v JSONVisitor \<Rightarrow> ParseOptions \<Rightarrow> bool" where
  "propertyEnds n inp visitor options \<longleftrightarrow>
     (\<forall>st. 3 * remaining inp (scn st) + 1 \<le> n \<longrightarrow>
        (\<exists>ok st'. parseProperty n inp visitor options st = Some (ok, st')
           \<and> remaining inp (scn st') \<le> remaining inp (scn st)
           \<and> (token (scn st) \<noteq> CloseBraceToken \<and> token (scn st) \<noteq> CommaToken
                \<and> token (scn st) \<noteq> EOF \<longrightarrow>
              remaining inp (scn st') < remaining inp (scn st))))"

definition objectLoopEnds ::
  "nat \<Rightarrow> jsstring \<Rightarrow> 'v JSONVisitor \<Rightarrow> ParseOptions \<Rightarrow> bool" where
  "objectLoopEnds n inp visitor options \<longleftrightarrow>
     (\<forall>st needsComma. 3 * remaining inp (scn st) + 2 \<le> n \<longrightarrow>
        (\<exists>st'. parseObject_loop n inp visitor options needsComma st = Some st'
           \<and> remaining inp (scn st') \<le> remaining inp (scn st)))"

definition objectEnds ::
  "nat \<Rightarrow> jsstring \<Rightarrow> 'v JSONVisitor \<Rightarrow> ParseOptions \<Rightarrow> bool" where
  "objectEnds n inp visitor options \<longleftrightarrow>
     (\<forall>st. token (scn st) \<noteq> EOF \<and> 3 * remaining inp (scn st) \<le> n \<longrightarrow>
        (\<exists>st'. parseObject n inp visitor options st = Some (True, st')
           \<and> remaining inp (scn st') < remaining inp (scn st)))"

definition arrayLoopEnds ::
  "nat \<Rightarrow> jsstring \<Rightarrow> 'v JSONVisitor \<Rightarrow> ParseOptions \<Rightarrow> bool" where
  "arrayLoopEnds n inp visitor options \<longleftrightarrow>
     (\<forall>st needsComma. 3 * remaining inp (scn st) + 2 \<le> n \<longrightarrow>
        (\<exists>st'. parseArray_loop n inp visitor options needsComma st = Some st'
           \<and> remaining inp (scn st') \<le> remaining inp (scn st)))"

definition arrayEnds ::
  "nat \<Rightarrow> jsstring \<Rightarrow> 'v JSONVisitor \<Rightarrow> ParseOptions \<Rightarrow> bool" where
  "arrayEnds n inp visitor options \<longleftrightarrow>
     (\<forall>st. token (scn st) \<noteq> EOF \<and> 3 * remaining inp (scn st) \<le> n \<longrightarrow>
        (\<exists>st'. parseArray n inp visitor options st = Some (True, st')
           \<and> remaining inp (scn st') < remaining inp (scn st)))"

lemma valueEndsD:
  "valueEnds n inp visitor options \<Longrightarrow> 3 * remaining inp (scn st) + 1 \<le> n \<Longrightarrow>
   \<exists>ok st'. parseValue n inp visitor options st = Some (ok, st')
           \<and> remaining inp (scn st') \<le> remaining inp (scn st)
           \<and> (ok \<longrightarrow> remaining inp (scn st') < remaining inp (scn st))
           \<and> (\<not> ok \<longrightarrow> st' = st)"
  by (simp add: valueEnds_def)

lemma propertyEndsD:
  "propertyEnds n inp visitor options \<Longrightarrow> 3 * remaining inp (scn st) + 1 \<le> n \<Longrightarrow>
   \<exists>ok st'. parseProperty n inp visitor options st = Some (ok, st')
           \<and> remaining inp (scn st') \<le> remaining inp (scn st)
           \<and> (token (scn st) \<noteq> CloseBraceToken \<and> token (scn st) \<noteq> CommaToken
                \<and> token (scn st) \<noteq> EOF \<longrightarrow>
              remaining inp (scn st') < remaining inp (scn st))"
  by (simp add: propertyEnds_def)

lemma objectLoopEndsD:
  "objectLoopEnds n inp visitor options \<Longrightarrow> 3 * remaining inp (scn st) + 2 \<le> n \<Longrightarrow>
   \<exists>st'. parseObject_loop n inp visitor options needsComma st = Some st'
           \<and> remaining inp (scn st') \<le> remaining inp (scn st)"
  by (simp add: objectLoopEnds_def)

lemma objectEndsD:
  "objectEnds n inp visitor options \<Longrightarrow> token (scn st) \<noteq> EOF \<Longrightarrow>
   3 * remaining inp (scn st) \<le> n \<Longrightarrow>
   \<exists>st'. parseObject n inp visitor options st = Some (True, st')
           \<and> remaining inp (scn st') < remaining inp (scn st)"
  by (simp add: objectEnds_def)

lemma arrayLoopEndsD:
  "arrayLoopEnds n inp visitor options \<Longrightarrow> 3 * remaining inp (scn st) + 2 \<le> n \<Longrightarrow>
   \<exists>st'. parseArray_loop n inp visitor options needsComma st = Some st'
           \<and> remaining inp (scn st') \<le> remaining inp (scn st)"
  by (simp add: arrayLoopEnds_def)

lemma arrayEndsD:
  "arrayEnds n inp visitor options \<Longrightarrow> token (scn st) \<noteq> EOF \<Longrightarrow>
   3 * remaining inp (scn st) \<le> n \<Longrightarrow>
   \<exists>st'. parseArray n inp visitor options st = Some (True, st')
           \<and> remaining inp (scn st') < remaining inp (scn st)"
  by (simp add: arrayEnds_def)

lemma remaining_pos: "token s \<noteq> EOF \<Longrightarrow> 0 < remaining inp s"
  by (simp add: remaining_def)

lemma valueEnds_Suc:
  assumes "arrayEnds n inp visitor options" and "objectEnds n inp visitor options"
  shows "valueEnds (Suc n) inp visitor options"
  unfolding valueEnds_def
proof (intro allI impI)
  fix st :: "'a visitState"
  assume fuel: "3 * remaining inp (scn st) + 1 \<le> Suc n"
  consider (arr) "token (scn st) = OpenBracketToken"
    | (obj) "token (scn st) = OpenBraceToken"
    | (string) "token (scn st) = StringLiteral"
    | (lit) "token (scn st) \<noteq> OpenBracketToken" "token (scn st) \<noteq> OpenBraceToken"
        "token (scn st) \<noteq> StringLiteral"
    by blast
  then show "\<exists>ok st'. parseValue (Suc n) inp visitor options st = Some (ok, st')
           \<and> remaining inp (scn st') \<le> remaining inp (scn st)
           \<and> (ok \<longrightarrow> remaining inp (scn st') < remaining inp (scn st))
           \<and> (\<not> ok \<longrightarrow> st' = st)"
  proof cases
    case arr
    then obtain st' where "parseArray n inp visitor options st = Some (True, st')"
      "remaining inp (scn st') < remaining inp (scn st)"
      using arrayEndsD [OF assms(1), of st] fuel by auto
    with arr show ?thesis by auto
  next
    case obj
    then obtain st' where "parseObject n inp visitor options st = Some (True, st')"
      "remaining inp (scn st') < remaining inp (scn st)"
      using objectEndsD [OF assms(2), of st] fuel by auto
    with obj show ?thesis by auto
  next
    case string
    then show ?thesis
      using parseString_remaining [of st inp visitor options True]
      by (cases "parseString inp visitor options True st") (auto simp: parseString_def Let_def)
  next
    case lit
    obtain ok st' where r: "parseLiteral inp visitor options st = (ok, st')"
      by (cases "parseLiteral inp visitor options st")
    with lit show ?thesis
      using parseLiteral_remaining [of inp visitor options st] by auto
  qed
qed


lemma propertyEnds_Suc:
  assumes "valueEnds n inp visitor options"
  shows "propertyEnds (Suc n) inp visitor options"
  unfolding propertyEnds_def
proof (intro allI impI)
  fix st :: "'a visitState"
  assume fuel: "3 * remaining inp (scn st) + 1 \<le> Suc n"
  let ?goal = "\<exists>ok st'. parseProperty (Suc n) inp visitor options st = Some (ok, st')
           \<and> remaining inp (scn st') \<le> remaining inp (scn st)
           \<and> (token (scn st) \<noteq> CloseBraceToken \<and> token (scn st) \<noteq> CommaToken
                \<and> token (scn st) \<noteq> EOF \<longrightarrow>
              remaining inp (scn st') < remaining inp (scn st))"
  show ?goal
  proof (cases "token (scn st) = StringLiteral")
    case False
    have "token (scn st) \<noteq> CloseBraceToken \<and> token (scn st) \<noteq> CommaToken \<and> token (scn st) \<noteq> EOF
          \<Longrightarrow> remaining inp (scn (handleError inp visitor options PropertyNameExpected []
                 [CloseBraceToken, CommaToken] st)) < remaining inp (scn st)"
      by (intro handleError_remaining_less) auto
    with False show ?thesis
      by (auto simp: handleError_remaining_le)
  next
    case True
    define st1 where "st1 = snd (parseString inp visitor options False st)"
    define st2 where "st2 = visit_scanNext inp visitor options
                      (toOneArgVisit (onSeparator visitor) [CharacterCodes_colon] st1)"
    have eq: "parseProperty (Suc n) inp visitor options st =
      (if token (scn st1) = ColonToken then
           (case parseValue n inp visitor options st2 of
              None \<Rightarrow> None
            | Some (ok, st3) \<Rightarrow>
                Some (True,
                      if \<not> ok
                      then handleError inp visitor options ValueExpected []
                             [CloseBraceToken, CommaToken] st3
                      else st3))
         else
           Some (True, handleError inp visitor options ColonExpected []
                         [CloseBraceToken, CommaToken] st1))"
      using True unfolding st1_def st2_def by (simp add: Let_def)
    have m1: "remaining inp (scn st1) < remaining inp (scn st)"
      unfolding st1_def using True by (intro parseString_remaining) simp
    show ?thesis
    proof (cases "token (scn st1) = ColonToken")
      case False
      have "remaining inp (scn (handleError inp visitor options ColonExpected []
                 [CloseBraceToken, CommaToken] st1)) \<le> remaining inp (scn st1)"
        by (rule handleError_remaining_le)
      with m1 False show ?thesis
        unfolding eq by auto
    next
      case colon: True
      have m2: "remaining inp (scn st2) < remaining inp (scn st1)"
        unfolding st2_def using colon by (intro visit_scanNext_less) simp_all
      have "3 * remaining inp (scn st2) + 1 \<le> n"
        using m1 m2 fuel by simp
      then obtain ok st3 where v: "parseValue n inp visitor options st2 = Some (ok, st3)"
        "remaining inp (scn st3) \<le> remaining inp (scn st2)"
        using valueEndsD [OF assms, of st2] by blast
      have "remaining inp (scn (handleError inp visitor options ValueExpected []
                 [CloseBraceToken, CommaToken] st3)) \<le> remaining inp (scn st3)"
        by (rule handleError_remaining_le)
      with v m1 m2 colon show ?thesis
        unfolding eq by auto
    qed
  qed
qed

text \<open>The separator step at the head of both loops leaves no more to scan.\<close>

lemma loop_head_remaining:
  fixes st :: "'a visitState" and inp visitor options needsComma
  defines "st1 \<equiv>
     (if token (scn st) = CommaToken then
        visit_scanNext inp visitor options
          (toOneArgVisit (onSeparator visitor) [CharacterCodes_comma]
             (if \<not> needsComma
              then handleError inp visitor options ValueExpected [] [] st
              else st))
      else if needsComma
      then handleError inp visitor options CommaExpected [] [] st
      else st)"
  shows "(token (scn st) = CommaToken \<longrightarrow> remaining inp (scn st1) < remaining inp (scn st))
       \<and> (token (scn st) \<noteq> CommaToken \<longrightarrow> scn st1 = scn st)"
  unfolding st1_def
  by (auto simp: handleError_scn_same intro!: visit_scanNext_less)

lemma objectLoopEnds_Suc:
  assumes "propertyEnds n inp visitor options" and "objectLoopEnds n inp visitor options"
  shows "objectLoopEnds (Suc n) inp visitor options"
  unfolding objectLoopEnds_def
proof (intro allI impI)
  fix st :: "'a visitState" and needsComma
  assume fuel: "3 * remaining inp (scn st) + 2 \<le> Suc n"
  let ?goal = "\<exists>st'. parseObject_loop (Suc n) inp visitor options needsComma st = Some st'
           \<and> remaining inp (scn st') \<le> remaining inp (scn st)"
  show ?goal
  proof (cases "token (scn st) \<noteq> CloseBraceToken \<and> token (scn st) \<noteq> EOF")
    case False
    then show ?thesis by auto
  next
    case go: True
    define st1 where "st1 =
     (if token (scn st) = CommaToken then
        visit_scanNext inp visitor options
          (toOneArgVisit (onSeparator visitor) [CharacterCodes_comma]
             (if \<not> needsComma
              then handleError inp visitor options ValueExpected [] [] st
              else st))
      else if needsComma
      then handleError inp visitor options CommaExpected [] [] st
      else st)"
    have head: "token (scn st) = CommaToken \<longrightarrow> remaining inp (scn st1) < remaining inp (scn st)"
      "token (scn st) \<noteq> CommaToken \<longrightarrow> scn st1 = scn st"
      using loop_head_remaining [of st inp visitor options needsComma]
      unfolding st1_def by blast+
    then have le1: "remaining inp (scn st1) \<le> remaining inp (scn st)"
      by (cases "token (scn st) = CommaToken") auto
    have eq: "parseObject_loop (Suc n) inp visitor options needsComma st =
       (if token (scn st) = CommaToken \<and> token (scn st1) = CloseBraceToken
            \<and> truthy (allowTrailingComma options)
         then Some st1
         else
           (case parseProperty n inp visitor options st1 of
              None \<Rightarrow> None
            | Some (ok, st2) \<Rightarrow>
                parseObject_loop n inp visitor options True
                  (if \<not> ok
                   then handleError inp visitor options ValueExpected []
                          [CloseBraceToken, CommaToken] st2
                   else st2)))"
      using go unfolding st1_def by (simp add: Let_def)
    show ?thesis
    proof (cases "token (scn st) = CommaToken \<and> token (scn st1) = CloseBraceToken
            \<and> truthy (allowTrailingComma options)")
      case True
      with le1 show ?thesis
        unfolding eq by simp
    next
      case False
      have "3 * remaining inp (scn st1) + 1 \<le> n"
        using le1 fuel by simp
      then obtain ok st2 where p: "parseProperty n inp visitor options st1 = Some (ok, st2)"
        "remaining inp (scn st2) \<le> remaining inp (scn st1)"
        "token (scn st1) \<noteq> CloseBraceToken \<and> token (scn st1) \<noteq> CommaToken
                \<and> token (scn st1) \<noteq> EOF \<longrightarrow>
              remaining inp (scn st2) < remaining inp (scn st1)"
        using propertyEndsD [OF assms(1), of st1] by blast
      define st3 where "st3 = (if \<not> ok
                   then handleError inp visitor options ValueExpected []
                          [CloseBraceToken, CommaToken] st2
                   else st2)"
      have le3: "remaining inp (scn st3) \<le> remaining inp (scn st2)"
        unfolding st3_def by (simp add: handleError_remaining_le)
      have less: "remaining inp (scn st3) < remaining inp (scn st)"
      proof (cases "token (scn st) = CommaToken")
        case True
        with head p(2) le3 show ?thesis by simp
      next
        case False
        with head go have "token (scn st1) \<noteq> CloseBraceToken \<and> token (scn st1) \<noteq> CommaToken
                \<and> token (scn st1) \<noteq> EOF"
          by simp
        with p(3) le3 le1 show ?thesis by simp
      qed
      then have "3 * remaining inp (scn st3) + 2 \<le> n"
        using fuel by simp
      then obtain st' where l: "parseObject_loop n inp visitor options True st3 = Some st'"
        "remaining inp (scn st') \<le> remaining inp (scn st3)"
        using objectLoopEndsD [OF assms(2), of st3] by blast
      with less False p(1) show ?thesis
        unfolding eq st3_def by auto
    qed
  qed
qed


lemma objectEnds_Suc:
  assumes "objectLoopEnds n inp visitor options"
  shows "objectEnds (Suc n) inp visitor options"
  unfolding objectEnds_def
proof (intro allI impI)
  fix st :: "'a visitState"
  assume a: "token (scn st) \<noteq> EOF \<and> 3 * remaining inp (scn st) \<le> Suc n"
  define st0 where "st0 = visit_scanNext inp visitor options (toNoArgVisit (onObjectBegin visitor) st)"
  have m0: "remaining inp (scn st0) < remaining inp (scn st)"
    unfolding st0_def using a by (intro visit_scanNext_less) simp_all
  then have "3 * remaining inp (scn st0) + 2 \<le> n"
    using a by simp
  then obtain st1 where l: "parseObject_loop n inp visitor options False st0 = Some st1"
    "remaining inp (scn st1) \<le> remaining inp (scn st0)"
    using objectLoopEndsD [OF assms, of st0] by blast
  define st2 where "st2 = toNoArgVisit (onObjectEnd visitor) st1"
  have eq: "parseObject (Suc n) inp visitor options st =
          Some (True,
                 if token (scn st2) \<noteq> CloseBraceToken
                 then handleError inp visitor options CloseBraceExpected [CloseBraceToken] [] st2
                 else visit_scanNext inp visitor options st2)"
    using l(1) unfolding st0_def st2_def by (simp add: Let_def)
  have "remaining inp (scn (handleError inp visitor options CloseBraceExpected [CloseBraceToken] [] st2))
        \<le> remaining inp (scn st1)"
    using handleError_remaining_le [of inp visitor options CloseBraceExpected "[CloseBraceToken]" "[]" st2]
    by (simp add: st2_def)
  moreover have "remaining inp (scn (visit_scanNext inp visitor options st2)) \<le> remaining inp (scn st1)"
    by (intro visit_scanNext_le) (simp add: st2_def)
  ultimately show "\<exists>st'. parseObject (Suc n) inp visitor options st = Some (True, st')
           \<and> remaining inp (scn st') < remaining inp (scn st)"
    using m0 l(2) unfolding eq by auto
qed

lemma arrayLoopEnds_Suc:
  assumes "valueEnds n inp visitor options" and "arrayLoopEnds n inp visitor options"
  shows "arrayLoopEnds (Suc n) inp visitor options"
  unfolding arrayLoopEnds_def
proof (intro allI impI)
  fix st :: "'a visitState" and needsComma
  assume fuel: "3 * remaining inp (scn st) + 2 \<le> Suc n"
  let ?goal = "\<exists>st'. parseArray_loop (Suc n) inp visitor options needsComma st = Some st'
           \<and> remaining inp (scn st') \<le> remaining inp (scn st)"
  show ?goal
  proof (cases "token (scn st) \<noteq> CloseBracketToken \<and> token (scn st) \<noteq> EOF")
    case False
    then show ?thesis by auto
  next
    case go: True
    define st1 where "st1 =
     (if token (scn st) = CommaToken then
        visit_scanNext inp visitor options
          (toOneArgVisit (onSeparator visitor) [CharacterCodes_comma]
             (if \<not> needsComma
              then handleError inp visitor options ValueExpected [] [] st
              else st))
      else if needsComma
      then handleError inp visitor options CommaExpected [] [] st
      else st)"
    have head: "token (scn st) = CommaToken \<longrightarrow> remaining inp (scn st1) < remaining inp (scn st)"
      "token (scn st) \<noteq> CommaToken \<longrightarrow> scn st1 = scn st"
      using loop_head_remaining [of st inp visitor options needsComma]
      unfolding st1_def by blast+
    then have le1: "remaining inp (scn st1) \<le> remaining inp (scn st)"
      by (cases "token (scn st) = CommaToken") auto
    have eq: "parseArray_loop (Suc n) inp visitor options needsComma st =
       (if token (scn st) = CommaToken \<and> token (scn st1) = CloseBracketToken
            \<and> truthy (allowTrailingComma options)
         then Some st1
         else
           (case parseValue n inp visitor options st1 of
              None \<Rightarrow> None
            | Some (ok, st2) \<Rightarrow>
                parseArray_loop n inp visitor options True
                  (if \<not> ok
                   then handleError inp visitor options ValueExpected []
                          [CloseBracketToken, CommaToken] st2
                   else st2)))"
      using go unfolding st1_def by (simp add: Let_def)
    show ?thesis
    proof (cases "token (scn st) = CommaToken \<and> token (scn st1) = CloseBracketToken
            \<and> truthy (allowTrailingComma options)")
      case True
      with le1 show ?thesis
        unfolding eq by simp
    next
      case False
      have "3 * remaining inp (scn st1) + 1 \<le> n"
        using le1 fuel by simp
      then obtain ok st2 where p: "parseValue n inp visitor options st1 = Some (ok, st2)"
        "remaining inp (scn st2) \<le> remaining inp (scn st1)"
        "ok \<longrightarrow> remaining inp (scn st2) < remaining inp (scn st1)"
        "\<not> ok \<longrightarrow> st2 = st1"
        using valueEndsD [OF assms(1), of st1] by blast
      define st3 where "st3 = (if \<not> ok
                   then handleError inp visitor options ValueExpected []
                          [CloseBracketToken, CommaToken] st2
                   else st2)"
      have le3: "remaining inp (scn st3) \<le> remaining inp (scn st2)"
        unfolding st3_def by (simp add: handleError_remaining_le)
      have less: "remaining inp (scn st3) < remaining inp (scn st)"
      proof (cases "token (scn st) = CommaToken")
        case True
        with head p(2) le3 show ?thesis by simp
      next
        case nc: False
        with head go have t1: "token (scn st1) \<noteq> EOF"
          "token (scn st1) \<notin> set [CloseBracketToken, CommaToken]"
          by simp_all
        show ?thesis
        proof (cases ok)
          case True
          with p(3) le1 show ?thesis by (simp add: st3_def)
        next
          case False
          with p(4) have "st3 = handleError inp visitor options ValueExpected []
                          [CloseBracketToken, CommaToken] st1"
            by (simp add: st3_def)
          moreover have "remaining inp (scn (handleError inp visitor options ValueExpected []
                          [CloseBracketToken, CommaToken] st1)) < remaining inp (scn st1)"
            using t1 by (intro handleError_remaining_less) simp_all
          ultimately show ?thesis
            using le1 by simp
        qed
      qed
      then have "3 * remaining inp (scn st3) + 2 \<le> n"
        using fuel by simp
      then obtain st' where l: "parseArray_loop n inp visitor options True st3 = Some st'"
        "remaining inp (scn st') \<le> remaining inp (scn st3)"
        using arrayLoopEndsD [OF assms(2), of st3] by blast
      with less False p(1) show ?thesis
        unfolding eq st3_def by auto
    qed
  qed
qed

lemma arrayEnds_Suc:
  assumes "arrayLoopEnds n inp visitor options"
  shows "arrayEnds (Suc n) inp visitor options"
  unfolding arrayEnds_def
proof (intro allI impI)
  fix st :: "'a visitState"
  assume a: "token (scn st) \<noteq> EOF \<and> 3 * remaining inp (scn st) \<le> Suc n"
  define st0 where "st0 = visit_scanNext inp visitor options (toNoArgVisit (onArrayBegin visitor) st)"
  have m0: "remaining inp (scn st0) < remaining inp (scn st)"
    unfolding st0_def using a by (intro visit_scanNext_less) simp_all
  then have "3 * remaining inp (scn st0) + 2 \<le> n"
    using a by simp
  then obtain st1 where l: "parseArray_loop n inp visitor options False st0 = Some st1"
    "remaining inp (scn st1) \<le> remaining inp (scn st0)"
    using arrayLoopEndsD [OF assms, of st0] by blast
  define st2 where "st2 = toNoArgVisit (onArrayEnd visitor) st1"
  have eq: "parseArray (Suc n) inp visitor options st =
          Some (True,
                 if token (scn st2) \<noteq> CloseBracketToken
                 then handleError inp visitor options CloseBracketExpected [CloseBracketToken] [] st2
                 else visit_scanNext inp visitor options st2)"
    using l(1) unfolding st0_def st2_def by (simp add: Let_def)
  have "remaining inp (scn (handleError inp visitor options CloseBracketExpected [CloseBracketToken] [] st2))
        \<le> remaining inp (scn st1)"
    using handleError_remaining_le [of inp visitor options CloseBracketExpected "[CloseBracketToken]" "[]" st2]
    by (simp add: st2_def)
  moreover have "remaining inp (scn (visit_scanNext inp visitor options st2)) \<le> remaining inp (scn st1)"
    by (intro visit_scanNext_le) (simp add: st2_def)
  ultimately show "\<exists>st'. parseArray (Suc n) inp visitor options st = Some (True, st')
           \<and> remaining inp (scn st') < remaining inp (scn st)"
    using m0 l(2) unfolding eq by auto
qed

lemma rules_end:
  "valueEnds n inp visitor options \<and> propertyEnds n inp visitor options
   \<and> objectLoopEnds n inp visitor options \<and> objectEnds n inp visitor options
   \<and> arrayLoopEnds n inp visitor options \<and> arrayEnds n inp visitor options"
proof (induction n)
  case 0
  show ?case
    by (auto simp: valueEnds_def propertyEnds_def objectLoopEnds_def objectEnds_def
        arrayLoopEnds_def arrayEnds_def remaining_def split: if_splits)
next
  case (Suc n)
  then show ?case
    by (simp add: valueEnds_Suc propertyEnds_Suc objectLoopEnds_Suc objectEnds_Suc
        arrayLoopEnds_Suc arrayEnds_Suc)
qed

text \<open>
  \<open>visit\<close> always returns: its fuel, four units for each character and six more, is at
  least three for each character or token left to scan and one more.
\<close>

lemma remaining_le: "remaining inp s \<le> length inp + 1"
  by (auto simp: remaining_def intro: le_SucI)

lemma visit_total: "\<exists>r. visit inp visitor options v0 = Some r"
proof -
  define st where "st = visit_scanNext inp visitor options \<lparr>scn = createScanner, vst = v0\<rparr>"
  have "3 * remaining inp (scn st) + 1 \<le> 4 * length inp + 6"
    using remaining_le [of inp "scn st"] by simp
  then obtain ok st' where "parseValue (4 * length inp + 6) inp visitor options st = Some (ok, st')"
    using valueEndsD [of "4 * length inp + 6" inp visitor options st] rules_end by blast
  then show ?thesis
    unfolding visit_def visit_within_def st_def [symmetric]
    by (auto simp: Let_def)
qed

section \<open>Begin and end events\<close>

text \<open>
  The containers that are open, innermost first, after a sequence of events that starts
  with the containers \<open>stk\<close> open; \<open>None\<close> when an end event finds no open container or
  one of the other kind.
\<close>

datatype container = InObject | InArray

fun nesting :: "container list \<Rightarrow> event list \<Rightarrow> container list option" where
  "nesting stk [] = Some stk"
| "nesting stk (ObjectBegin off len # es) = nesting (InObject # stk) es"
| "nesting stk (ArrayBegin off len # es) = nesting (InArray # stk) es"
| "nesting stk (ObjectEnd off len # es) =
     (case stk of InObject # stk' \<Rightarrow> nesting stk' es | _ \<Rightarrow> None)"
| "nesting stk (ArrayEnd off len # es) =
     (case stk of InArray # stk' \<Rightarrow> nesting stk' es | _ \<Rightarrow> None)"
| "nesting stk (e # es) = nesting stk es"

text \<open>Every begin event has its end event, of the same kind and properly nested.\<close>

definition balanced :: "event list \<Rightarrow> bool" where
  "balanced es \<longleftrightarrow> nesting [] es = Some []"

text \<open>
  Every end event either stands at a closing character of its kind in the text, or is
  followed at once by the error that reports the missing character, at the same offset
  and length.
\<close>

fun closersReported :: "jsstring \<Rightarrow> event list \<Rightarrow> bool" where
  "closersReported text [] = True"
| "closersReported text (ObjectEnd off len # es) =
     ((charCodeAt text off = Some CharacterCodes_closeBrace
       \<or> take 1 es = [Error CloseBraceExpected off len])
      \<and> closersReported text es)"
| "closersReported text (ArrayEnd off len # es) =
     ((charCodeAt text off = Some CharacterCodes_closeBracket
       \<or> take 1 es = [Error CloseBracketExpected off len])
      \<and> closersReported text es)"
| "closersReported text (e # es) = closersReported text es"

text \<open>The events that neither begin nor end a container.\<close>

fun quiet :: "event \<Rightarrow> bool" where
  "quiet (ObjectBegin off len) = False"
| "quiet (ObjectEnd off len) = False"
| "quiet (ArrayBegin off len) = False"
| "quiet (ArrayEnd off len) = False"
| "quiet e = True"

text \<open>A sequence of events that leaves the open containers as they were.\<close>

definition neutral :: "event list \<Rightarrow> bool" where
  "neutral es \<longleftrightarrow> (\<forall>stk. nesting stk es = Some stk)"

lemma nesting_append:
  "nesting stk (a @ b) = (case nesting stk a of None \<Rightarrow> None | Some stk' \<Rightarrow> nesting stk' b)"
proof (induction stk a rule: nesting.induct)
  case (4 stk off len es)
  then show ?case by (cases stk; simp split: container.splits list.splits)
next
  case (5 stk off len es)
  then show ?case by (cases stk; simp split: container.splits list.splits)
qed simp_all

lemma neutral_Nil: "neutral []"
  by (simp add: neutral_def)

lemma neutral_append: "neutral a \<Longrightarrow> neutral b \<Longrightarrow> neutral (a @ b)"
  by (simp add: neutral_def nesting_append)

lemma neutral_quiet: "list_all quiet es \<Longrightarrow> neutral es"
  unfolding neutral_def
proof (induction es)
  case (Cons e es)
  then show ?case by (cases e) simp_all
qed simp

lemma neutral_object:
  "neutral mid \<Longrightarrow> neutral rest \<Longrightarrow> neutral (ObjectBegin o1 l1 # mid @ ObjectEnd o2 l2 # rest)"
  by (simp add: neutral_def nesting_append)

lemma neutral_array:
  "neutral mid \<Longrightarrow> neutral rest \<Longrightarrow> neutral (ArrayBegin o1 l1 # mid @ ArrayEnd o2 l2 # rest)"
  by (simp add: neutral_def nesting_append)

lemma closersReported_append:
  "closersReported inp a \<Longrightarrow> closersReported inp b \<Longrightarrow> closersReported inp (a @ b)"
proof (induction inp a rule: closersReported.induct)
  case (2 inp off len es)
  then show ?case by (cases es) auto
next
  case (3 inp off len es)
  then show ?case by (cases es) auto
qed simp_all

lemma closersReported_quiet: "list_all quiet es \<Longrightarrow> closersReported inp es"
proof (induction es)
  case (Cons e es)
  then show ?case by (cases e) simp_all
qed simp

text \<open>The token of a closing brace or bracket stands at that character.\<close>

definition closerAt :: "jsstring \<Rightarrow> scanner \<Rightarrow> bool" where
  "closerAt text s \<longleftrightarrow>
     (token s = CloseBraceToken \<longrightarrow> charCodeAt text (tokenOffset s) = Some CharacterCodes_closeBrace)
     \<and> (token s = CloseBracketToken \<longrightarrow>
          charCodeAt text (tokenOffset s) = Some CharacterCodes_closeBracket)"

lemma scan_closerAt: "closerAt inp (scan inp s)"
proof (cases "pos s < length inp")
  case False
  then show ?thesis
    by (simp add: scan_def scanNext_EOF closerAt_def)
next
  case True
  then show ?thesis
  proof (cases rule: scanNext_cases)
    case ws
    with True show ?thesis
      by (simp add: scan_def scanNext_whitespace closerAt_def del: isWhitespace.simps)
  next
    case lb
    with True show ?thesis
      using scanNext_lineBreak [of s inp] by (simp add: scan_def closerAt_def)
  next
    case punct
    with True show ?thesis
      by (auto simp: scan_def scanNext_punctuation closerAt_def scanStart_def charCodeAt_def)
  next
    case quote
    with True show ?thesis
      by (simp add: scan_def scanNext_string closerAt_def)
  next
    case slash
    with True show ?thesis
      by (simp add: scan_def scanNext_slash closerAt_def)
  next
    case minus
    with True show ?thesis
      by (simp add: scan_def scanNext_minus closerAt_def del: isDigit.simps)
  next
    case digit
    with True show ?thesis
      by (simp add: scan_def scanNext_digit closerAt_def del: isDigit.simps)
  next
    case word
    with True show ?thesis
      by (simp add: scan_def scanNext_word closerAt_def Let_def)
  qed
qed

text \<open>
  What a step of a run with the recorder adds: events that leave the open containers as
  they were and report every missing closer; and the token of a closer still stands at
  its character.
\<close>

definition traces :: "jsstring \<Rightarrow> event list visitState \<Rightarrow> event list visitState \<Rightarrow> bool" where
  "traces inp st st' \<longleftrightarrow>
     (closerAt inp (scn st) \<longrightarrow> closerAt inp (scn st'))
     \<and> (\<exists>es. vst st' = vst st @ es \<and> neutral es \<and> closersReported inp es)"

lemma traces_refl: "traces inp st st"
  by (simp add: traces_def neutral_Nil)

lemma traces_trans: "traces inp a b \<Longrightarrow> traces inp b c \<Longrightarrow> traces inp a c"
proof -
  assume ab: "traces inp a b" and bc: "traces inp b c"
  from ab obtain es1 where 1: "vst b = vst a @ es1" "neutral es1" "closersReported inp es1"
    unfolding traces_def by blast
  from bc obtain es2 where 2: "vst c = vst b @ es2" "neutral es2" "closersReported inp es2"
    unfolding traces_def by blast
  have "vst c = vst a @ (es1 @ es2)" "neutral (es1 @ es2)" "closersReported inp (es1 @ es2)"
    using 1 2 by (simp_all add: neutral_append closersReported_append)
  then have "\<exists>es. vst c = vst a @ es \<and> neutral es \<and> closersReported inp es"
    by blast
  moreover have "closerAt inp (scn a) \<longrightarrow> closerAt inp (scn c)"
    using ab bc unfolding traces_def by blast
  ultimately show ?thesis
    unfolding traces_def by blast
qed

lemma traces_quiet:
  "scn st' = scn st \<Longrightarrow> vst st' = vst st @ es \<Longrightarrow> list_all quiet es \<Longrightarrow> traces inp st st'"
  unfolding traces_def using neutral_quiet closersReported_quiet by auto

lemma traces_onError: "traces inp st (toOneArgVisit (onError recorder) e st)"
  by (rule traces_quiet [where es = "[Error e (tokenOffset (scn st)) (getTokenLength (scn st))]"])
     (simp_all add: recorder_def toOneArgVisit_def)

lemma traces_onComment: "traces inp st (toNoArgVisit (onComment recorder) st)"
  by (rule traces_quiet [where es = "[Comment (tokenOffset (scn st)) (getTokenLength (scn st))]"])
     (simp_all add: recorder_def toNoArgVisit_def)

lemma traces_onLiteralValue: "traces inp st (toOneArgVisit (onLiteralValue recorder) v st)"
  by (rule traces_quiet [where es = "[LiteralValue v (tokenOffset (scn st)) (getTokenLength (scn st))]"])
     (simp_all add: recorder_def toOneArgVisit_def)

lemma traces_onObjectProperty: "traces inp st (toOneArgVisit (onObjectProperty recorder) v st)"
  by (rule traces_quiet [where es = "[ObjectProperty v (tokenOffset (scn st)) (getTokenLength (scn st))]"])
     (simp_all add: recorder_def toOneArgVisit_def)

lemma traces_onSeparator: "traces inp st (toOneArgVisit (onSeparator recorder) v st)"
  by (rule traces_quiet [where es = "[Separator v (tokenOffset (scn st)) (getTokenLength (scn st))]"])
     (simp_all add: recorder_def toOneArgVisit_def)

lemma traces_scanStep: "traces inp st (visit_scanStep inp recorder options st)"
proof -
  let ?st1 = "st\<lparr>scn := scan inp (scn st)\<rparr>"
  have 1: "traces inp st ?st1"
    by (simp add: traces_def scan_closerAt neutral_Nil)
  define st2 where "st2 = (case scanError (scn ?st1) of
                   ScanError_InvalidUnicode \<Rightarrow> toOneArgVisit (onError recorder) InvalidUnicode ?st1
                 | ScanError_InvalidEscapeCharacter \<Rightarrow>
                     toOneArgVisit (onError recorder) InvalidEscapeCharacter ?st1
                 | ScanError_UnexpectedEndOfNumber \<Rightarrow>
                     toOneArgVisit (onError recorder) UnexpectedEndOfNumber ?st1
                 | ScanError_UnexpectedEndOfComment \<Rightarrow>
                     if \<not> truthy (disallowComments options)
                     then toOneArgVisit (onError recorder) UnexpectedEndOfComment ?st1
                     else ?st1
                 | ScanError_UnexpectedEndOfString \<Rightarrow>
                     toOneArgVisit (onError recorder) UnexpectedEndOfString ?st1
                 | ScanError_InvalidCharacter \<Rightarrow>
                     toOneArgVisit (onError recorder) InvalidCharacter ?st1
                 | ScanError_None \<Rightarrow> ?st1)"
  have 2: "traces inp ?st1 st2"
    unfolding st2_def
    by (cases "scanError (scan inp (scn st))") (simp_all add: traces_onError traces_refl)
  have 3: "traces inp st2 (if token (scn st2) = LineCommentTrivia \<or> token (scn st2) = BlockCommentTrivia then
        (if truthy (disallowComments options)
         then toOneArgVisit (onError recorder) InvalidCommentToken st2
         else toNoArgVisit (onComment recorder) st2)
      else if token (scn st2) = Unknown then toOneArgVisit (onError recorder) InvalidSymbol st2
      else st2)"
    by (simp add: traces_onError traces_onComment traces_refl)
  have "visit_scanStep inp recorder options st =
      (if token (scn st2) = LineCommentTrivia \<or> token (scn st2) = BlockCommentTrivia then
        (if truthy (disallowComments options)
         then toOneArgVisit (onError recorder) InvalidCommentToken st2
         else toNoArgVisit (onComment recorder) st2)
      else if token (scn st2) = Unknown then toOneArgVisit (onError recorder) InvalidSymbol st2
      else st2)"
    unfolding visit_scanStep_def st2_def Let_def by (rule refl)
  then show ?thesis
    using traces_trans [OF traces_trans [OF 1 2] 3] by simp
qed

lemma traces_scanNext_aux:
  "visitor = recorder \<Longrightarrow> traces inp st (visit_scanNext inp visitor options st)"
proof (induction inp visitor options st rule: visit_scanNext.induct)
  case (1 inp visitor options st)
  show ?case
  proof (cases "scanAgain (token (scn (visit_scanStep inp visitor options st)))")
    case True
    then have "traces inp (visit_scanStep inp visitor options st)
                 (visit_scanNext inp visitor options (visit_scanStep inp visitor options st))"
      using 1 by simp
    moreover have "traces inp st (visit_scanStep inp visitor options st)"
      using 1(2) by (simp add: traces_scanStep)
    ultimately have "traces inp st
                 (visit_scanNext inp visitor options (visit_scanStep inp visitor options st))"
      by (rule traces_trans [rotated])
    with True show ?thesis
      by (subst visit_scanNext.simps) (simp add: Let_def)
  next
    case False
    then show ?thesis
      using 1(2) by (subst visit_scanNext.simps) (simp add: Let_def traces_scanStep)
  qed
qed

lemma traces_scanNext: "traces inp st (visit_scanNext inp recorder options st)"
  by (simp add: traces_scanNext_aux)

lemma scanNext_closerAt: "closerAt inp (scn (visit_scanNext inp visitor options st))"
proof (induction inp visitor options st rule: visit_scanNext.induct)
  case (1 inp visitor options st)
  then show ?case
    by (subst visit_scanNext.simps) (simp add: Let_def scan_closerAt)
qed

lemma traces_skip_aux:
  "visitor = recorder \<Longrightarrow> traces inp st (handleError_skip inp visitor options xs ys st)"
proof (induction inp visitor options xs ys st rule: handleError_skip.induct)
  case (1 inp visitor options xs ys st)
  show ?case
  proof (cases "token (scn st) \<noteq> EOF \<and> token (scn st) \<notin> set xs \<and> token (scn st) \<notin> set ys")
    case True
    then have "traces inp (visit_scanNext inp visitor options st)
                 (handleError_skip inp visitor options xs ys (visit_scanNext inp visitor options st))"
      using 1 by simp
    moreover have "traces inp st (visit_scanNext inp visitor options st)"
      using 1(2) by (simp add: traces_scanNext)
    ultimately have "traces inp st
                 (handleError_skip inp visitor options xs ys (visit_scanNext inp visitor options st))"
      by (rule traces_trans [rotated])
    with True show ?thesis
      by (subst handleError_skip.simps) simp
  next
    case False
    then show ?thesis
      using 1(2) by (subst handleError_skip.simps) (auto simp: traces_refl traces_scanNext)
  qed
qed

lemma traces_skip: "traces inp st (handleError_skip inp recorder options xs ys st)"
  by (simp add: traces_skip_aux)

lemma traces_handleError: "traces inp st (handleError inp recorder options e xs ys st)"
  unfolding handleError_def Let_def
  using traces_trans [OF traces_onError traces_skip] by (simp add: traces_onError)

lemma traces_parseString: "traces inp st (snd (parseString inp recorder options isValue st))"
  unfolding parseString_def Let_def
  using traces_trans [OF traces_onLiteralValue traces_scanNext]
    traces_trans [OF traces_onObjectProperty traces_scanNext]
  by simp

lemma traces_parseLiteral: "traces inp st (snd (parseLiteral inp recorder options st))"
proof -
  have a: "\<And>v st1. traces inp st st1 \<Longrightarrow>
     traces inp st (visit_scanNext inp recorder options (toOneArgVisit (onLiteralValue recorder) v st1))"
    using traces_trans [OF traces_trans [OF _ traces_onLiteralValue] traces_scanNext] by blast
  show ?thesis
    by (auto simp: parseLiteral_def Let_def traces_refl traces_handleError
        split: option.splits jsval.splits intro!: a)
qed

definition valueTraces :: "nat \<Rightarrow> jsstring \<Rightarrow> ParseOptions \<Rightarrow> bool" where
  "valueTraces n inp options \<longleftrightarrow>
     (\<forall>st ok st'. parseValue n inp recorder options st = Some (ok, st') \<longrightarrow> traces inp st st')"

definition propertyTraces :: "nat \<Rightarrow> jsstring \<Rightarrow> ParseOptions \<Rightarrow> bool" where
  "propertyTraces n inp options \<longleftrightarrow>
     (\<forall>st ok st'. parseProperty n inp recorder options st = Some (ok, st') \<longrightarrow> traces inp st st')"

definition objectLoopTraces :: "nat \<Rightarrow> jsstring \<Rightarrow> ParseOptions \<Rightarrow> bool" where
  "objectLoopTraces n inp options \<longleftrightarrow>
     (\<forall>st needsComma st'. parseObject_loop n inp recorder options needsComma st = Some st' \<longrightarrow>
        traces inp st st' \<and> (token (scn st') = CloseBraceToken \<or> token (scn st') = EOF))"

definition objectTraces :: "nat \<Rightarrow> jsstring \<Rightarrow> ParseOptions \<Rightarrow> bool" where
  "objectTraces n inp options \<longleftrightarrow>
     (\<forall>st ok st'. parseObject n inp recorder options st = Some (ok, st') \<longrightarrow> traces inp st st')"

definition arrayLoopTraces :: "nat \<Rightarrow> jsstring \<Rightarrow> ParseOptions \<Rightarrow> bool" where
  "arrayLoopTraces n inp options \<longleftrightarrow>
     (\<forall>st needsComma st'. parseArray_loop n inp recorder options needsComma st = Some st' \<longrightarrow>
        traces inp st st' \<and> (token (scn st') = CloseBracketToken \<or> token (scn st') = EOF))"

definition arrayTraces :: "nat \<Rightarrow> jsstring \<Rightarrow> ParseOptions \<Rightarrow> bool" where
  "arrayTraces n inp options \<longleftrightarrow>
     (\<forall>st ok st'. parseArray n inp recorder options st = Some (ok, st') \<longrightarrow> traces inp st st')"

lemma valueTraces_Suc:
  assumes "arrayTraces n inp options" and "objectTraces n inp options"
  shows "valueTraces (Suc n) inp options"
  unfolding valueTraces_def
proof (intro allI impI)
  fix st ok st'
  assume r: "parseValue (Suc n) inp recorder options st = Some (ok, st')"
  consider (arr) "token (scn st) = OpenBracketToken"
    | (obj) "token (scn st) \<noteq> OpenBracketToken" "token (scn st) = OpenBraceToken"
    | (string) "token (scn st) \<noteq> OpenBracketToken" "token (scn st) \<noteq> OpenBraceToken"
        "token (scn st) = StringLiteral"
    | (lit) "token (scn st) \<noteq> OpenBracketToken" "token (scn st) \<noteq> OpenBraceToken"
        "token (scn st) \<noteq> StringLiteral"
    by blast
  then show "traces inp st st'"
  proof cases
    case arr
    with r assms(1) show ?thesis
      unfolding arrayTraces_def by auto
  next
    case obj
    with r assms(2) show ?thesis
      unfolding objectTraces_def by auto
  next
    case string
    with r have "st' = snd (parseString inp recorder options True st)"
      by auto
    then show ?thesis
      by (simp add: traces_parseString)
  next
    case lit
    with r have "st' = snd (parseLiteral inp recorder options st)"
      by auto
    then show ?thesis
      by (simp add: traces_parseLiteral)
  qed
qed

lemma propertyTraces_Suc:
  assumes "valueTraces n inp options"
  shows "propertyTraces (Suc n) inp options"
  unfolding propertyTraces_def
proof (intro allI impI)
  fix st ok st'
  assume r: "parseProperty (Suc n) inp recorder options st = Some (ok, st')"
  show "traces inp st st'"
  proof (cases "token (scn st) = StringLiteral")
    case False
    with r have "st' = handleError inp recorder options PropertyNameExpected []
                       [CloseBraceToken, CommaToken] st"
      by auto
    then show ?thesis
      by (simp add: traces_handleError)
  next
    case True
    define st1 where "st1 = snd (parseString inp recorder options False st)"
    define st2 where "st2 = visit_scanNext inp recorder options
                      (toOneArgVisit (onSeparator recorder) [CharacterCodes_colon] st1)"
    have eq: "parseProperty (Suc n) inp recorder options st =
      (if token (scn st1) = ColonToken then
           (case parseValue n inp recorder options st2 of
              None \<Rightarrow> None
            | Some (ok, st3) \<Rightarrow>
                Some (True,
                      if \<not> ok
                      then handleError inp recorder options ValueExpected []
                             [CloseBraceToken, CommaToken] st3
                      else st3))
         else
           Some (True, handleError inp recorder options ColonExpected []
                         [CloseBraceToken, CommaToken] st1))"
      using True unfolding st1_def st2_def by (simp add: Let_def)
    have t1: "traces inp st st1"
      unfolding st1_def by (rule traces_parseString)
    have t2: "traces inp st1 st2"
      unfolding st2_def by (rule traces_trans [OF traces_onSeparator traces_scanNext])
    show ?thesis
    proof (cases "token (scn st1) = ColonToken")
      case False
      with r eq have "st' = handleError inp recorder options ColonExpected []
                         [CloseBraceToken, CommaToken] st1"
        by simp
      then show ?thesis
        using traces_trans [OF t1 traces_handleError] by simp
    next
      case colon: True
      with r eq obtain ok3 st3 where v: "parseValue n inp recorder options st2 = Some (ok3, st3)"
        and st': "st' = (if \<not> ok3
                      then handleError inp recorder options ValueExpected []
                             [CloseBraceToken, CommaToken] st3
                      else st3)"
        by (auto split: option.splits)
      have t3: "traces inp st2 st3"
        using assms v unfolding valueTraces_def by blast
      have "traces inp st3 st'"
        unfolding st' by (simp add: traces_handleError traces_refl)
      then show ?thesis
        using traces_trans [OF traces_trans [OF traces_trans [OF t1 t2] t3]] by blast
    qed
  qed
qed

text \<open>The separator step at the head of both loops.\<close>

lemma traces_loop_head:
  "traces inp st
     (if token (scn st) = CommaToken then
        visit_scanNext inp recorder options
          (toOneArgVisit (onSeparator recorder) [CharacterCodes_comma]
             (if \<not> needsComma
              then handleError inp recorder options ValueExpected [] [] st
              else st))
      else if needsComma
      then handleError inp recorder options CommaExpected [] [] st
      else st)"
  using traces_trans [OF traces_trans [OF traces_handleError traces_onSeparator] traces_scanNext]
    traces_trans [OF traces_onSeparator traces_scanNext]
  by (simp add: traces_handleError traces_refl)

lemma objectLoopTraces_Suc:
  assumes "propertyTraces n inp options" and "objectLoopTraces n inp options"
  shows "objectLoopTraces (Suc n) inp options"
  unfolding objectLoopTraces_def
proof (intro allI impI)
  fix st needsComma st'
  assume r: "parseObject_loop (Suc n) inp recorder options needsComma st = Some st'"
  let ?goal = "traces inp st st' \<and> (token (scn st') = CloseBraceToken \<or> token (scn st') = EOF)"
  show ?goal
  proof (cases "token (scn st) \<noteq> CloseBraceToken \<and> token (scn st) \<noteq> EOF")
    case False
    with r have "st' = st" by auto
    with False show ?thesis by (auto simp: traces_refl)
  next
    case go: True
    define st1 where "st1 =
     (if token (scn st) = CommaToken then
        visit_scanNext inp recorder options
          (toOneArgVisit (onSeparator recorder) [CharacterCodes_comma]
             (if \<not> needsComma
              then handleError inp recorder options ValueExpected [] [] st
              else st))
      else if needsComma
      then handleError inp recorder options CommaExpected [] [] st
      else st)"
    have t1: "traces inp st st1"
      unfolding st1_def by (rule traces_loop_head)
    have eq: "parseObject_loop (Suc n) inp recorder options needsComma st =
       (if token (scn st) = CommaToken \<and> token (scn st1) = CloseBraceToken
            \<and> truthy (allowTrailingComma options)
         then Some st1
         else
           (case parseProperty n inp recorder options st1 of
              None \<Rightarrow> None
            | Some (ok, st2) \<Rightarrow>
                parseObject_loop n inp recorder options True
                  (if \<not> ok
                   then handleError inp recorder options ValueExpected []
                          [CloseBraceToken, CommaToken] st2
                   else st2)))"
      using go unfolding st1_def by (simp add: Let_def)
    show ?thesis
    proof (cases "token (scn st) = CommaToken \<and> token (scn st1) = CloseBraceToken
            \<and> truthy (allowTrailingComma options)")
      case True
      with r eq have "st' = st1" by simp
      with True t1 show ?thesis by simp
    next
      case False
      with r eq obtain ok st2 where p: "parseProperty n inp recorder options st1 = Some (ok, st2)"
        and l: "parseObject_loop n inp recorder options True
                  (if \<not> ok
                   then handleError inp recorder options ValueExpected []
                          [CloseBraceToken, CommaToken] st2
                   else st2) = Some st'"
        by (auto split: option.splits)
      define st3 where "st3 = (if \<not> ok
                   then handleError inp recorder options ValueExpected []
                          [CloseBraceToken, CommaToken] st2
                   else st2)"
      have t2: "traces inp st1 st2"
        using assms(1) p unfolding propertyTraces_def by blast
      have t3: "traces inp st2 st3"
        unfolding st3_def by (simp add: traces_handleError traces_refl)
      have t4: "traces inp st3 st' \<and> (token (scn st') = CloseBraceToken \<or> token (scn st') = EOF)"
        using assms(2) l unfolding objectLoopTraces_def st3_def by blast
      then show ?thesis
        using traces_trans [OF traces_trans [OF traces_trans [OF t1 t2] t3]] by blast
    qed
  qed
qed

lemma arrayLoopTraces_Suc:
  assumes "valueTraces n inp options" and "arrayLoopTraces n inp options"
  shows "arrayLoopTraces (Suc n) inp options"
  unfolding arrayLoopTraces_def
proof (intro allI impI)
  fix st needsComma st'
  assume r: "parseArray_loop (Suc n) inp recorder options needsComma st = Some st'"
  let ?goal = "traces inp st st' \<and> (token (scn st') = CloseBracketToken \<or> token (scn st') = EOF)"
  show ?goal
  proof (cases "token (scn st) \<noteq> CloseBracketToken \<and> token (scn st) \<noteq> EOF")
    case False
    with r have "st' = st" by auto
    with False show ?thesis by (auto simp: traces_refl)
  next
    case go: True
    define st1 where "st1 =
     (if token (scn st) = CommaToken then
        visit_scanNext inp recorder options
          (toOneArgVisit (onSeparator recorder) [CharacterCodes_comma]
             (if \<not> needsComma
              then handleError inp recorder options ValueExpected [] [] st
              else st))
      else if needsComma
      then handleError inp recorder options CommaExpected [] [] st
      else st)"
    have t1: "traces inp st st1"
      unfolding st1_def by (rule traces_loop_head)
    have eq: "parseArray_loop (Suc n) inp recorder options needsComma st =
       (if token (scn st) = CommaToken \<and> token (scn st1) = CloseBracketToken
            \<and> truthy (allowTrailingComma options)
         then Some st1
         else
           (case parseValue n inp recorder options st1 of
              None \<Rightarrow> None
            | Some (ok, st2) \<Rightarrow>
                parseArray_loop n inp recorder options True
                  (if \<not> ok
                   then handleError inp recorder options ValueExpected []
                          [CloseBracketToken, CommaToken] st2
                   else st2)))"
      using go unfolding st1_def by (simp add: Let_def)
    show ?thesis
    proof (cases "token (scn st) = CommaToken \<and> token (scn st1) = CloseBracketToken
            \<and> truthy (allowTrailingComma options)")
      case True
      with r eq have "st' = st1" by simp
      with True t1 show ?thesis by simp
    next
      case False
      with r eq obtain ok st2 where p: "parseValue n inp recorder options st1 = Some (ok, st2)"
        and l: "parseArray_loop n inp recorder options True
                  (if \<not> ok
                   then handleError inp recorder options ValueExpected []
                          [CloseBracketToken, CommaToken] st2
                   else st2) = Some st'"
        by (auto split: option.splits)
      define st3 where "st3 = (if \<not> ok
                   then handleError inp recorder options ValueExpected []
                          [CloseBracketToken, CommaToken] st2
                   else st2)"
      have t2: "traces inp st1 st2"
        using assms(1) p unfolding valueTraces_def by blast
      have t3: "traces inp st2 st3"
        unfolding st3_def by (simp add: traces_handleError traces_refl)
      have t4: "traces inp st3 st' \<and> (token (scn st') = CloseBracketToken \<or> token (scn st') = EOF)"
        using assms(2) l unfolding arrayLoopTraces_def st3_def by blast
      then show ?thesis
        using traces_trans [OF traces_trans [OF traces_trans [OF t1 t2] t3]] by blast
    qed
  qed
qed

lemma objectTraces_Suc:
  assumes "objectLoopTraces n inp options"
  shows "objectTraces (Suc n) inp options"
  unfolding objectTraces_def
proof (intro allI impI)
  fix st ok st'
  assume r: "parseObject (Suc n) inp recorder options st = Some (ok, st')"
  define b where "b = toNoArgVisit (onObjectBegin recorder) st"
  define st0 where "st0 = visit_scanNext inp recorder options b"
  from r obtain st1 where l: "parseObject_loop n inp recorder options False st0 = Some st1"
    unfolding st0_def b_def by (auto split: option.splits)
  define st2 where "st2 = toNoArgVisit (onObjectEnd recorder) st1"
  have st': "st' = (if token (scn st2) \<noteq> CloseBraceToken
                 then handleError inp recorder options CloseBraceExpected [CloseBraceToken] [] st2
                 else visit_scanNext inp recorder options st2)"
    using r l unfolding st0_def b_def st2_def by (simp add: Let_def)
  let ?B = "ObjectBegin (tokenOffset (scn st)) (getTokenLength (scn st))"
  let ?E = "ObjectEnd (tokenOffset (scn st1)) (getTokenLength (scn st1))"
  have b: "vst b = vst st @ [?B]" "scn b = scn st"
    by (simp_all add: b_def recorder_def toNoArgVisit_def)
  have t0: "traces inp b st0"
    unfolding st0_def by (rule traces_scanNext)
  have c0: "closerAt inp (scn st0)"
    unfolding st0_def by (rule scanNext_closerAt)
  have t1: "traces inp st0 st1" and tok: "token (scn st1) = CloseBraceToken \<or> token (scn st1) = EOF"
    using assms l unfolding objectLoopTraces_def by blast+
  have c1: "closerAt inp (scn st1)"
    using t1 c0 unfolding traces_def by blast
  from traces_trans [OF t0 t1] obtain mid where mid: "vst st1 = vst b @ mid" "neutral mid"
    "closersReported inp mid"
    unfolding traces_def by blast
  have st2: "vst st2 = vst st1 @ [?E]" "scn st2 = scn st1"
    by (simp_all add: st2_def recorder_def toNoArgVisit_def)
  have fin: "\<exists>rest. vst st' = vst st2 @ rest \<and> neutral rest \<and> closersReported inp (?E # rest)
                \<and> closerAt inp (scn st')"
  proof (cases "token (scn st1) = CloseBraceToken")
    case True
    then have s: "st' = visit_scanNext inp recorder options st2"
      using st' st2 by simp
    obtain rest where rest: "vst st' = vst st2 @ rest" "neutral rest" "closersReported inp rest"
      using traces_scanNext [of inp st2 options] unfolding s traces_def by blast
    moreover have "charCodeAt inp (tokenOffset (scn st1)) = Some CharacterCodes_closeBrace"
      using c1 True by (simp add: closerAt_def)
    moreover have "closerAt inp (scn st')"
      unfolding s by (rule scanNext_closerAt)
    ultimately show ?thesis by auto
  next
    case False
    with tok have eof: "token (scn st2) = EOF"
      using st2 by simp
    then have s: "st' = toOneArgVisit (onError recorder) CloseBraceExpected st2"
      using st' by (simp add: handleError_simple)
    have "vst st' = vst st2 @ [Error CloseBraceExpected (tokenOffset (scn st1)) (getTokenLength (scn st1))]"
      "scn st' = scn st1"
      unfolding s using st2 by (simp_all add: recorder_def toOneArgVisit_def)
    then show ?thesis
      using c1 by (auto simp: neutral_quiet)
  qed
  then obtain rest where rest: "vst st' = vst st2 @ rest" "neutral rest"
    "closersReported inp (?E # rest)" "closerAt inp (scn st')"
    by blast
  have "vst st' = vst st @ (?B # mid @ ?E # rest)"
    using b mid st2 rest by simp
  moreover have "neutral (?B # mid @ ?E # rest)"
    using mid(2) rest(2) by (rule neutral_object)
  moreover have "closersReported inp (?B # mid @ ?E # rest)"
    using closersReported_append [OF mid(3) rest(3)] by simp
  ultimately show "traces inp st st'"
    unfolding traces_def using rest(4) by blast
qed

lemma arrayTraces_Suc:
  assumes "arrayLoopTraces n inp options"
  shows "arrayTraces (Suc n) inp options"
  unfolding arrayTraces_def
proof (intro allI impI)
  fix st ok st'
  assume r: "parseArray (Suc n) inp recorder options st = Some (ok, st')"
  define b where "b = toNoArgVisit (onArrayBegin recorder) st"
  define st0 where "st0 = visit_scanNext inp recorder options b"
  from r obtain st1 where l: "parseArray_loop n inp recorder options False st0 = Some st1"
    unfolding st0_def b_def by (auto split: option.splits)
  define st2 where "st2 = toNoArgVisit (onArrayEnd recorder) st1"
  have st': "st' = (if token (scn st2) \<noteq> CloseBracketToken
                 then handleError inp recorder options CloseBracketExpected [CloseBracketToken] [] st2
                 else visit_scanNext inp recorder options st2)"
    using r l unfolding st0_def b_def st2_def by (simp add: Let_def)
  let ?B = "ArrayBegin (tokenOffset (scn st)) (getTokenLength (scn st))"
  let ?E = "ArrayEnd (tokenOffset (scn st1)) (getTokenLength (scn st1))"
  have b: "vst b = vst st @ [?B]" "scn b = scn st"
    by (simp_all add: b_def recorder_def toNoArgVisit_def)
  have t0: "traces inp b st0"
    unfolding st0_def by (rule traces_scanNext)
  have c0: "closerAt inp (scn st0)"
    unfolding st0_def by (rule scanNext_closerAt)
  have t1: "traces inp st0 st1" and tok: "token (scn st1) = CloseBracketToken \<or> token (scn st1) = EOF"
    using assms l unfolding arrayLoopTraces_def by blast+
  have c1: "closerAt inp (scn st1)"
    using t1 c0 unfolding traces_def by blast
  from traces_trans [OF t0 t1] obtain mid where mid: "vst st1 = vst b @ mid" "neutral mid"
    "closersReported inp mid"
    unfolding traces_def by blast
  have st2: "vst st2 = vst st1 @ [?E]" "scn st2 = scn st1"
    by (simp_all add: st2_def recorder_def toNoArgVisit_def)
  have fin: "\<exists>rest. vst st' = vst st2 @ rest \<and> neutral rest \<and> closersReported inp (?E # rest)
                \<and> closerAt inp (scn st')"
  proof (cases "token (scn st1) = CloseBracketToken")
    case True
    then have s: "st' = visit_scanNext inp recorder options st2"
      using st' st2 by simp
    obtain rest where rest: "vst st' = vst st2 @ rest" "neutral rest" "closersReported inp rest"
      using traces_scanNext [of inp st2 options] unfolding s traces_def by blast
    moreover have "charCodeAt inp (tokenOffset (scn st1)) = Some CharacterCodes_closeBracket"
      using c1 True by (simp add: closerAt_def)
    moreover have "closerAt inp (scn st')"
      unfolding s by (rule scanNext_closerAt)
    ultimately show ?thesis by auto
  next
    case False
    with tok have eof: "token (scn st2) = EOF"
      using st2 by simp
    then have s: "st' = toOneArgVisit (onError recorder) CloseBracketExpected st2"
      using st' by (simp add: handleError_simple)
    have "vst st' = vst st2 @ [Error CloseBracketExpected (tokenOffset (scn st1)) (getTokenLength (scn st1))]"
      "scn st' = scn st1"
      unfolding s using st2 by (simp_all add: recorder_def toOneArgVisit_def)
    then show ?thesis
      using c1 by (auto simp: neutral_quiet)
  qed
  then obtain rest where rest: "vst st' = vst st2 @ rest" "neutral rest"
    "closersReported inp (?E # rest)" "closerAt inp (scn st')"
    by blast
  have "vst st' = vst st @ (?B # mid @ ?E # rest)"
    using b mid st2 rest by simp
  moreover have "neutral (?B # mid @ ?E # rest)"
    using mid(2) rest(2) by (rule neutral_array)
  moreover have "closersReported inp (?B # mid @ ?E # rest)"
    using closersReported_append [OF mid(3) rest(3)] by simp
  ultimately show "traces inp st st'"
    unfolding traces_def using rest(4) by blast
qed

lemma rules_trace:
  "valueTraces n inp options \<and> propertyTraces n inp options
   \<and> objectLoopTraces n inp options \<and> objectTraces n inp options
   \<and> arrayLoopTraces n inp options \<and> arrayTraces n inp options"
proof (induction n)
  case 0
  show ?case
    by (simp add: valueTraces_def propertyTraces_def objectLoopTraces_def objectTraces_def
        arrayLoopTraces_def arrayTraces_def)
next
  case (Suc n)
  then show ?case
    by (simp add: valueTraces_Suc propertyTraces_Suc objectLoopTraces_Suc objectTraces_Suc
        arrayLoopTraces_Suc arrayTraces_Suc)
qed

lemma visit_traces:
  assumes "visit_within n inp recorder options es0 = Some (ok, es)"
  shows "\<exists>es1. es = es0 @ es1 \<and> neutral es1 \<and> closersReported inp es1"
proof -
  define st where "st = visit_scanNext inp recorder options \<lparr>scn = createScanner, vst = es0\<rparr>"
  have t0: "traces inp \<lparr>scn = createScanner, vst = es0\<rparr> st"
    unfolding st_def by (rule traces_scanNext)
  have "\<exists>st'. traces inp st st' \<and> es = vst st'"
  proof (cases "token (scn st) = EOF")
    case True
    with assms show ?thesis
      unfolding visit_within_def st_def [symmetric]
      using traces_refl [of inp st] traces_handleError [of inp st options ValueExpected "[]" "[]"]
      by (auto simp: Let_def split: if_splits)
  next
    case False
    with assms obtain ok1 st1 where v: "parseValue n inp recorder options st = Some (ok1, st1)"
      and es: "es = vst (if \<not> ok1 then handleError inp recorder options ValueExpected [] [] st1
             else if token (scn st1) \<noteq> EOF
             then handleError inp recorder options EndOfFileExpected [] [] st1
             else st1)"
      unfolding visit_within_def st_def [symmetric]
      by (auto simp: Let_def split: option.splits if_splits)
    have t1: "traces inp st st1"
      using rules_trace [of n inp options] v unfolding valueTraces_def by blast
    have "traces inp st1 (if \<not> ok1 then handleError inp recorder options ValueExpected [] [] st1
             else if token (scn st1) \<noteq> EOF
             then handleError inp recorder options EndOfFileExpected [] [] st1
             else st1)"
      by (simp add: traces_handleError traces_refl)
    with t1 es show ?thesis
      using traces_trans by blast
  qed
  then obtain st' where st': "traces inp st st'" "es = vst st'"
    by blast
  obtain es1 where "vst st' = vst \<lparr>scn = createScanner, vst = es0\<rparr> @ es1" "neutral es1"
    "closersReported inp es1"
    using traces_trans [OF t0 st'(1)] unfolding traces_def by blast
  with st'(2) show ?thesis
    by simp
qed

text \<open>
  Claim C6. Every run of \<open>visit\<close>, on any text and under any options, returns, and the
  events it has reported are balanced: every object-begin and array-begin event has its
  object-end or array-end event, properly nested. Every end event either stands at a
  closing brace (or bracket) of the text or, when that character is missing, is followed
  at once by the error close-brace-expected (or close-bracket-expected) at the same
  offset and length: the error is recorded and the end event is still emitted.
\<close>

theorem C6_events_balanced:
  "\<exists>ok es. events inp options = Some (ok, es) \<and> balanced es \<and> closersReported inp es"
proof -
  obtain ok es where r: "events inp options = Some (ok, es)"
    using visit_total [of inp recorder options "[]"] unfolding events_def by (cases) auto
  then obtain es1 where "es = [] @ es1" "neutral es1" "closersReported inp es1"
    using visit_traces [of "4 * length inp + 6" inp options "[]" ok es]
    unfolding events_def visit_def by blast
  with r show ?thesis
    by (auto simp: balanced_def neutral_def)
qed

text \<open>
  Claim C6 at \<open>{"a":[1,{\<close>, where three containers are open when the text ends: each gets
  its end event and the error for its missing closer.
\<close>

theorem C6_witness:
  \<open>events (str ''{"a":[1,{'') ParseOptions_DEFAULT =
     Some (True,
       [ObjectBegin 0 1, ObjectProperty (str ''a'') 1 3, Separator (str '':'') 4 1,
        ArrayBegin 5 1, LiteralValue (JSNumber 1) 6 1, Separator (str '','') 7 1,
        ObjectBegin 8 1, ObjectEnd 9 0, Error CloseBraceExpected 9 0,
        ArrayEnd 9 0, Error CloseBracketExpected 9 0,
        ObjectEnd 9 0, Error CloseBraceExpected 9 0])
   \<and> balanced
       [ObjectBegin 0 1, ObjectProperty (str ''a'') 1 3, Separator (str '':'') 4 1,
        ArrayBegin 5 1, LiteralValue (JSNumber 1) 6 1, Separator (str '','') 7 1,
        ObjectBegin 8 1, ObjectEnd 9 0, Error CloseBraceExpected 9 0,
        ArrayEnd 9 0, Error CloseBracketExpected 9 0,
        ObjectEnd 9 0, Error CloseBraceExpected 9 0]\<close>
proof -
  have e: \<open>events (str ''{"a":[1,{'') ParseOptions_DEFAULT =
     Some (True,
       [ObjectBegin 0 1, ObjectProperty (str ''a'') 1 3, Separator (str '':'') 4 1,
        ArrayBegin 5 1, LiteralValue (JSNumber 1) 6 1, Separator (str '','') 7 1,
        ObjectBegin 8 1, ObjectEnd 9 0, Error CloseBraceExpected 9 0,
        ArrayEnd 9 0, Error CloseBracketExpected 9 0,
        ObjectEnd 9 0, Error CloseBraceExpected 9 0])\<close>
    by (simp add: events_def recorder_def ParseOptions_DEFAULT_def visit_eval scanner_eval)
  with C6_events_balanced [of \<open>str ''{"a":[1,{''\<close> ParseOptions_DEFAULT] show ?thesis
    by simp
qed

section \<open>Parsing particular texts\<close>

text \<open>The kinds of the errors that \<open>parse\<close> records, in order.\<close>

definition error_codes :: "jsstring \<Rightarrow> ParseOptions \<Rightarrow> ParseErrorCode list option" where
  "error_codes text options =
     (case parse text [] options of
        Some (Inr (v, h, errs)) \<Rightarrow> Some (map error errs)
      | _ \<Rightarrow> None)"

text \<open>
  Claim C2, as the code has it. The text \<open>{"a":1,}\<close> parsed with \<open>allowTrailingComma\<close>
  true gives the object \<open>{a: 1}\<close> and no error. With \<open>allowTrailingComma\<close> false it gives
  the same object and exactly two errors, both at the closing brace (offset 7, length 1):
  first property-name-expected, from \<open>parseProperty\<close>, which finds the brace where a
  property name must start, then value-expected, from \<open>parseObject\<close>, because
  \<open>parseProperty\<close> returned false. No comma-expected error is recorded. The other two
  options are arbitrary.
\<close>

theorem C2_trailing_comma:
  \<open>parse_tree (str ''{"a":1,}'')
      \<lparr>disallowComments = dc, allowTrailingComma = Some True, allowEmptyContent = ae\<rparr>
    = Some (Inr (Some (JObject [(str ''a'', JNumber 1)]), []))
   \<and> parse_tree (str ''{"a":1,}'')
      \<lparr>disallowComments = dc, allowTrailingComma = Some False, allowEmptyContent = ae\<rparr>
    = Some (Inr (Some (JObject [(str ''a'', JNumber 1)]),
        [\<lparr>error = PropertyNameExpected, offset = 7, errorLength = 1\<rparr>,
         \<lparr>error = ValueExpected, offset = 7, errorLength = 1\<rparr>]))\<close>
  by (simp add: parse_eval)

text \<open>
  Claim C2 as it is stated fails: with \<open>allowTrailingComma\<close> false, the errors of
  \<open>{"a":1,}\<close> are not a single comma-expected error.
\<close>

theorem C2_counterexample:
  \<open>error_codes (str ''{"a":1,}'')
      \<lparr>disallowComments = None, allowTrailingComma = Some False, allowEmptyContent = None\<rparr>
    \<noteq> Some [CommaExpected]\<close>
  by (simp add: error_codes_def parse_eval)

text \<open>
  Claim C3. The text \<open>{"a" 1}\<close>, under any options, gives exactly one error, of kind
  colon-expected (at the token \<open>1\<close>, offset 5), and the empty object: the name \<open>a\<close> gets no
  value. The events show the recovery: after the error nothing is reported for the
  token \<open>1\<close>, and the object ends on the closing brace at offset 6.
\<close>

theorem C3_missing_colon:
  \<open>parse_tree (str ''{"a" 1}'') options
     = Some (Inr (Some (JObject []), [\<lparr>error = ColonExpected, offset = 5, errorLength = 1\<rparr>]))
   \<and> events (str ''{"a" 1}'') options
     = Some (True, [ObjectBegin 0 1, ObjectProperty (str ''a'') 1 3, Error ColonExpected 5 1,
                    ObjectEnd 6 1])\<close>
  by (simp add: parse_eval events_def recorder_def)

text \<open>
  Claim C4, as the code has it. The truncated text \<open>{"a": "b\<close>, under any options, gives
  the object \<open>{a: "b"}\<close> and exactly two errors: unexpected-end-of-string for the string
  token (offset 6, length 2), then close-brace-expected at the end of the input (offset 8,
  length 0), because the object is never closed either.
\<close>

theorem C4_truncated_string:
  \<open>parse_tree (str ''{"a": "b'') options
     = Some (Inr (Some (JObject [(str ''a'', JString (str ''b''))]),
         [\<lparr>error = UnexpectedEndOfString, offset = 6, errorLength = 2\<rparr>,
          \<lparr>error = CloseBraceExpected, offset = 8, errorLength = 0\<rparr>]))\<close>
  by (simp add: parse_eval)

text \<open>
  Claim C4 as it is stated fails: the errors of \<open>{"a": "b\<close> are not a single
  unexpected-end-of-string error.
\<close>

theorem C4_counterexample:
  \<open>error_codes (str ''{"a": "b'') ParseOptions_DEFAULT \<noteq> Some [UnexpectedEndOfString]\<close>
  by (simp add: error_codes_def parse_eval ParseOptions_DEFAULT_def)

text \<open>
  Claim C5. The empty text parsed with \<open>allowEmptyContent\<close> false (or absent) gives the
  absent value and exactly one error, value-expected at offset 0; with
  \<open>allowEmptyContent\<close> true it gives the absent value and no error, and \<open>visit\<close> returns
  true without any event. The other two options are arbitrary.
\<close>

theorem C5_empty_content:
  \<open>parse_tree [] \<lparr>disallowComments = dc, allowTrailingComma = tc, allowEmptyContent = Some False\<rparr>
     = Some (Inr (Some JUndefined, [\<lparr>error = ValueExpected, offset = 0, errorLength = 0\<rparr>]))
   \<and> parse_tree [] \<lparr>disallowComments = dc, allowTrailingComma = tc, allowEmptyContent = None\<rparr>
     = Some (Inr (Some JUndefined, [\<lparr>error = ValueExpected, offset = 0, errorLength = 0\<rparr>]))
   \<and> parse_tree [] \<lparr>disallowComments = dc, allowTrailingComma = tc, allowEmptyContent = Some True\<rparr>
     = Some (Inr (Some JUndefined, []))
   \<and> events [] \<lparr>disallowComments = dc, allowTrailingComma = tc, allowEmptyContent = Some True\<rparr>
     = Some (True, [])\<close>
  by (simp add: parse_eval events_def recorder_def)

text \<open>
  Claim C1 fails for a member named \<open>__proto__\<close>. The text \<open>{"__proto__":1}\<close> is valid
  JSON, and a JSON decoder gives an object with the one member \<open>__proto__\<close>, of value 1.
  \<open>parse\<close> records no error and returns an object with no member: \<open>onValue\<close> assigns
  \<open>currentParent["__proto__"] = 1\<close>, which runs the setter that every object made by \<open>{}\<close>
  inherits, and the setter ignores a number.
\<close>

theorem C1_proto_member_lost:
  \<open>parse_tree (str ''{"__proto__":1}'') ParseOptions_DEFAULT = Some (Inr (Some (JObject []), []))
   \<and> parse_tree (str ''{"__proto__":1}'') ParseOptions_DEFAULT
       \<noteq> Some (Inr (Some (JObject [(str ''__proto__'', JNumber 1)]), []))\<close>
  by (simp add: parse_eval ParseOptions_DEFAULT_def)

text \<open>
  Claim C9 fails for the same name. In \<open>{"a":1,"b":true,"a":2}\<close> the last value of \<open>a\<close>
  wins and the first is gone. In \<open>{"__proto__":1,"__proto__":2}\<close> the name occurs twice
  and the object that \<open>parse\<close> returns has no member of that name at all.
\<close>

theorem C9_proto_duplicate:
  \<open>parse_tree (str ''{"a":1,"b":true,"a":2}'') ParseOptions_DEFAULT
     = Some (Inr (Some (JObject [(str ''a'', JNumber 2), (str ''b'', JBoolean True)]), []))
   \<and> parse_tree (str ''{"__proto__":1,"__proto__":2}'') ParseOptions_DEFAULT
     = Some (Inr (Some (JObject []), []))\<close>
  by (simp add: parse_eval ParseOptions_DEFAULT_def)

lemma scanNumber_zero:
  assumes "charCodeAt inp (pos s) = Some CharacterCodes_0"
    and "isDigit (charCodeAt inp (pos s + 1))"
  shows "scanNumber inp s = ([CharacterCodes_0], s\<lparr>pos := pos s + 1\<rparr>)"
proof -
  from assms(2) have lt: "pos s + 1 < length inp"
    by (auto simp: charCodeAt_def split: if_splits)
  from assms(2) have nd: "charCodeAt inp (pos s + 1) \<noteq> Some CharacterCodes_dot"
    "charCodeAt inp (pos s + 1) \<noteq> Some CharacterCodes_E"
    "charCodeAt inp (pos s + 1) \<noteq> Some CharacterCodes_e"
    by auto
  have sub: "substring inp (pos s) (pos s + 1) = [CharacterCodes_0]"
    using assms(1) lt
    by (auto simp: substring_def charCodeAt_def min_def max_def take_Suc_conv_app_nth
        split: if_splits)
  show ?thesis
    using assms(1) lt nd sub by (simp add: scanNumber_def Let_def del: isDigit.simps)
qed

section \<open>Numbers\<close>

lemma charCodeAt_append:
  "charCodeAt (pre @ rest) (length pre + k) = charCodeAt rest k"
  by (simp add: charCodeAt_def nth_append)

lemma charCodeAt_append0:
  "charCodeAt (pre @ rest) (length pre) = charCodeAt rest 0"
  using charCodeAt_append [of pre rest 0] by simp

lemma charCodeAt_Cons0: "charCodeAt (x # xs) 0 = Some x"
  by (simp add: charCodeAt_def)

lemma charCodeAt_Nil: "charCodeAt [] k = None"
  by (simp add: charCodeAt_def)

lemma substring_append:
  "substring (pre @ mid @ rest) (length pre) (length pre + length mid) = mid"
  by (simp add: substring_def min_def max_def)

text \<open>A run of digits that no digit follows is skipped whole.\<close>

lemma skipDigits_append:
  assumes "list_all isDigitCode ds" and "\<not> isDigit (charCodeAt rest 0)"
  shows "skipDigits (pre @ ds @ rest) (length pre) = length pre + length ds"
  using assms
proof (induction ds arbitrary: pre)
  case Nil
  then show ?case
    by (subst skipDigits.simps) (simp add: charCodeAt_append0)
next
  case (Cons d ds)
  have "skipDigits ((pre @ [d]) @ ds @ rest) (length (pre @ [d])) = length (pre @ [d]) + length ds"
    using Cons by (intro Cons.IH) simp_all
  moreover have "isDigit (charCodeAt (pre @ (d # ds) @ rest) (length pre))"
    using Cons.prems(1) by (simp add: charCodeAt_append0 charCodeAt_Cons0 isDigitCode_def)
  ultimately show ?case
    by (subst skipDigits.simps) simp
qed


text \<open>
  The integer part of a JSON number: a single \<open>0\<close>, or digits that do not start with
  \<open>0\<close>.
\<close>

definition intPart :: "jsstring \<Rightarrow> bool" where
  "intPart ip \<longleftrightarrow>
     ip = [CharacterCodes_0] \<or> (ip \<noteq> [] \<and> hd ip \<noteq> CharacterCodes_0 \<and> list_all isDigitCode ip)"

lemma intPart_end:
  assumes "intPart ip" and "\<not> isDigit (charCodeAt rest 0)"
  shows "(if charCodeAt (pre @ ip @ rest) (length pre) = Some CharacterCodes_0 then length pre + 1
          else skipDigits (pre @ ip @ rest) (length pre + 1)) = length pre + length ip"
proof (cases "ip = [CharacterCodes_0]")
  case True
  then show ?thesis
    by (simp add: charCodeAt_append0 charCodeAt_Cons0)
next
  case False
  with assms(1) obtain c ds where ip: "ip = c # ds" "c \<noteq> CharacterCodes_0" "list_all isDigitCode ds"
    by (cases ip) (auto simp: intPart_def)
  have "skipDigits ((pre @ [c]) @ ds @ rest) (length (pre @ [c])) = length (pre @ [c]) + length ds"
    using ip(3) assms(2) by (rule skipDigits_append)
  then show ?thesis
    using ip by (simp add: charCodeAt_append0 charCodeAt_Cons0)
qed

lemma scanNumber_fraction:
  assumes "intPart ip" and "\<not> isDigit (charCodeAt rest 0)" and "pos s = length pre"
  shows "scanNumber (pre @ ip @ [CharacterCodes_dot] @ rest) s =
           (ip @ [CharacterCodes_dot],
            s\<lparr>pos := length pre + length ip + 1, scanError := ScanError_UnexpectedEndOfNumber\<rparr>)"
proof -
  let ?t = "pre @ ip @ [CharacterCodes_dot] @ rest"
  have p1: "(if charCodeAt ?t (length pre) = Some CharacterCodes_0 then length pre + 1
            else skipDigits ?t (length pre + 1)) = length pre + length ip"
    by (rule intPart_end [OF assms(1)]) (simp add: charCodeAt_Cons0)
  have dot: "charCodeAt ?t (length pre + length ip) = Some CharacterCodes_dot"
    using charCodeAt_append [of "pre @ ip" "[CharacterCodes_dot] @ rest" 0]
    by (simp add: charCodeAt_Cons0)
  have nxt: "charCodeAt ?t (length pre + length ip + 1) = charCodeAt rest 0"
    using charCodeAt_append [of "pre @ ip @ [CharacterCodes_dot]" rest 0] by simp
  have sub: "substring ?t (length pre) (length pre + length ip + 1) = ip @ [CharacterCodes_dot]"
    using substring_append [of pre "ip @ [CharacterCodes_dot]" rest] by simp
  show ?thesis
    unfolding scanNumber_def Let_def assms(3) p1
    using dot nxt sub assms(2) by (simp del: isDigit.simps)
qed

lemma scanNumber_exponent:
  assumes "intPart ip"
    and "m = ip \<or> (m = ip @ CharacterCodes_dot # fs \<and> fs \<noteq> [] \<and> list_all isDigitCode fs)"
    and "e = CharacterCodes_E \<or> e = CharacterCodes_e"
    and "sg = [] \<or> sg = [CharacterCodes_plus] \<or> sg = [CharacterCodes_minus]"
    and "\<not> isDigit (charCodeAt rest 0)"
    and "sg = [] \<longrightarrow> charCodeAt rest 0 \<noteq> Some CharacterCodes_plus
                     \<and> charCodeAt rest 0 \<noteq> Some CharacterCodes_minus"
    and "pos s = length pre"
  shows "scanNumber (pre @ m @ [e] @ sg @ rest) s =
           (m, s\<lparr>pos := length pre + length m + 1 + length sg,
                 scanError := ScanError_UnexpectedEndOfNumber\<rparr>)"
proof -
  let ?t = "pre @ m @ [e] @ sg @ rest"
  have enotdigit: "\<not> isDigit (Some e)" "e \<noteq> CharacterCodes_dot"
    using assms(3) by auto
  have t_ip: "\<exists>tl. ?t = pre @ ip @ tl \<and> \<not> isDigit (charCodeAt tl 0)
              \<and> (m = ip \<longrightarrow> tl = [e] @ sg @ rest)
              \<and> (m \<noteq> ip \<longrightarrow> tl = CharacterCodes_dot # fs @ [e] @ sg @ rest)"
    using assms(2) enotdigit by (auto simp: charCodeAt_Cons0)
  then obtain tl where tl: "?t = pre @ ip @ tl" "\<not> isDigit (charCodeAt tl 0)"
    "m = ip \<longrightarrow> tl = [e] @ sg @ rest" "m \<noteq> ip \<longrightarrow> tl = CharacterCodes_dot # fs @ [e] @ sg @ rest"
    by blast
  have p1: "(if charCodeAt ?t (length pre) = Some CharacterCodes_0 then length pre + 1
            else skipDigits ?t (length pre + 1)) = length pre + length ip"
    unfolding tl(1) by (rule intPart_end [OF assms(1) tl(2)])
  have at_e: "charCodeAt ?t (length pre + length m) = Some e"
    using charCodeAt_append [of "pre @ m" "[e] @ sg @ rest" 0] by (simp add: charCodeAt_Cons0)
  have lt_e: "length pre + length m < length ?t"
    by simp
  have after_e: "charCodeAt ?t (length pre + length m + 1) = charCodeAt (sg @ rest) 0"
    using charCodeAt_append [of "pre @ m @ [e]" "sg @ rest" 0] by simp
  have after_sg: "charCodeAt ?t (length pre + length m + 1 + length sg) = charCodeAt rest 0"
    using charCodeAt_append [of "pre @ m @ [e] @ sg" rest 0] by (simp add: add.assoc)
  have sub: "substring ?t (length pre) (length pre + length m) = m"
    using substring_append [of pre m "[e] @ sg @ rest"] by simp
  have p2: "(if length pre + length ip < length ?t
                \<and> charCodeAt ?t (length pre + length ip) = Some CharacterCodes_dot
             then skipDigits ?t (length pre + length ip + 2) else length pre + length ip)
            = length pre + length m"
  proof (cases "m = ip")
    case True
    then show ?thesis using at_e enotdigit by simp
  next
    case False
    with assms(2) have m: "m = ip @ CharacterCodes_dot # fs" "fs \<noteq> []" "list_all isDigitCode fs"
      by auto
    then obtain f fs' where fs: "fs = f # fs'" by (cases fs) auto
    have dot: "charCodeAt ?t (length pre + length ip) = Some CharacterCodes_dot"
      using charCodeAt_append [of "pre @ ip" "CharacterCodes_dot # fs @ [e] @ sg @ rest" 0] m
      by (simp add: charCodeAt_Cons0)
    have "skipDigits ((pre @ ip @ [CharacterCodes_dot, f]) @ fs' @ ([e] @ sg @ rest))
            (length (pre @ ip @ [CharacterCodes_dot, f]))
          = length (pre @ ip @ [CharacterCodes_dot, f]) + length fs'"
      using m(3) enotdigit fs by (intro skipDigits_append) (simp_all add: charCodeAt_Cons0)
    then show ?thesis
      using dot m fs by simp
  qed
  have notmal: "\<not> (length pre + length ip < length ?t
                 \<and> charCodeAt ?t (length pre + length ip) = Some CharacterCodes_dot
                 \<and> \<not> (length pre + length ip + 1 < length ?t
                        \<and> isDigit (charCodeAt ?t (length pre + length ip + 1))))"
  proof (cases "m = ip")
    case True
    then show ?thesis using at_e enotdigit by simp
  next
    case False
    with assms(2) have m: "m = ip @ CharacterCodes_dot # fs" "fs \<noteq> []" "list_all isDigitCode fs"
      by auto
    then obtain f fs' where fs: "fs = f # fs'" by (cases fs) auto
    have "charCodeAt ?t (length pre + length ip + 1) = Some f"
      using charCodeAt_append [of "pre @ ip @ [CharacterCodes_dot]" "f # fs' @ [e] @ sg @ rest" 0] m fs
      by (simp add: charCodeAt_Cons0)
    moreover have "isDigit (Some f)"
      using m(3) fs by (simp add: isDigitCode_def)
    ultimately show ?thesis
      using m fs by simp
  qed
  have p4: "(if (length pre + length m + 1 < length ?t
                  \<and> charCodeAt ?t (length pre + length m + 1) = Some CharacterCodes_plus)
                \<or> charCodeAt ?t (length pre + length m + 1) = Some CharacterCodes_minus
             then length pre + length m + 1 + 1 else length pre + length m + 1)
            = length pre + length m + 1 + length sg"
    using assms(4,6) after_e
    by (auto simp: charCodeAt_Cons0 charCodeAt_def split: if_splits)
  show ?thesis
    unfolding scanNumber_def Let_def assms(7) p1
    apply (simp only: notmal if_False p2)
    using at_e lt_e assms(3) p4 after_sg assms(5) sub
    apply (simp del: isDigit.simps)
    done
qed


lemma scanNext_signed:
  assumes neg: "neg = [] \<or> neg = [CharacterCodes_minus]"
    and d: "isDigitCode d"
    and p: "pos s = length pre"
    and t: "inp = pre @ neg @ d # after"
    and num: "\<And>s'. pos s' = length pre + length neg \<Longrightarrow>
                scanNumber inp s' = (v, s'\<lparr>pos := q, scanError := err\<rparr>)"
  shows "scanNext inp s =
           (scanStart s)\<lparr>pos := q, scanError := err, tokenValue := neg @ v, token := NumericLiteral\<rparr>"
proof (cases "neg = []")
  case True
  have lt: "pos s < length inp" and at: "inp ! pos s = d"
    using p t True by (simp_all add: nth_append)
  have "scanNumber inp (scanStart s) = (v, (scanStart s)\<lparr>pos := q, scanError := err\<rparr>)"
    using p True by (intro num) (simp add: scanStart_def)
  then show ?thesis
    using lt at d True by (simp add: scanNext_digit isDigitCode_def del: isDigit.simps)
next
  case False
  with neg have m: "neg = [CharacterCodes_minus]" by simp
  have lt: "pos s < length inp" and at: "inp ! pos s = CharacterCodes_minus"
    using p t m by (simp_all add: nth_append)
  have nxt: "charCodeAt inp (pos s + 1) = Some d"
    using charCodeAt_append [of "pre @ neg" "d # after" 0] p t m by (simp add: charCodeAt_Cons0)
  have lt2: "pos s + 1 \<noteq> length inp"
    using p t m by simp
  have "scanNumber inp ((scanStart s)\<lparr>tokenValue := [CharacterCodes_minus], pos := pos s + 1\<rparr>)
        = (v, ((scanStart s)\<lparr>tokenValue := [CharacterCodes_minus], pos := pos s + 1\<rparr>)
                \<lparr>pos := q, scanError := err\<rparr>)"
    using p m by (intro num) simp
  then show ?thesis
    using lt at nxt lt2 d m
    by (simp add: scanNext_minus isDigitCode_def del: isDigit.simps)
qed

lemma intPart_Cons: "intPart ip \<Longrightarrow> \<exists>d ds. ip = d # ds \<and> isDigitCode d"
  by (cases ip) (auto simp: intPart_def isDigitCode_def)

text \<open>
  Claim C8, as the code has it. The scanner has two rules for the value of a malformed
  number. A number whose fraction has no digit after the decimal point is one numeric
  token with the error unexpected-end-of-number, and its value is all the text scanned
  so far, the decimal point included. A number whose exponent has no digit after the
  marker and the optional sign is one numeric token with the same error, but its value is
  only the text before the exponent marker, although the scanner has moved beyond the
  marker and the sign. The text is any \<open>pre @ neg @ \<dots>\<close> scanned from the position after
  \<open>pre\<close>, where \<open>neg\<close> is an optional minus sign. For \<open>1.2e\<close> the token has length 4 and
  the value \<open>1.2\<close>.
\<close>

theorem C8_malformed_number:
  "(intPart ip \<and> (neg = [] \<or> neg = [CharacterCodes_minus]) \<and> \<not> isDigit (charCodeAt rest 0)
      \<and> pos s = length pre \<longrightarrow>
    scanNext (pre @ neg @ ip @ [CharacterCodes_dot] @ rest) s =
      s\<lparr>pos := length pre + length neg + length ip + 1,
         tokenValue := neg @ ip @ [CharacterCodes_dot],
         tokenOffset := length pre,
         token := NumericLiteral,
         scanError := ScanError_UnexpectedEndOfNumber\<rparr>)
   \<and> (intPart ip \<and> (neg = [] \<or> neg = [CharacterCodes_minus])
      \<and> (m = ip \<or> (m = ip @ CharacterCodes_dot # fs \<and> fs \<noteq> [] \<and> list_all isDigitCode fs))
      \<and> (e = CharacterCodes_E \<or> e = CharacterCodes_e)
      \<and> (sg = [] \<or> sg = [CharacterCodes_plus] \<or> sg = [CharacterCodes_minus])
      \<and> \<not> isDigit (charCodeAt rest 0)
      \<and> (sg = [] \<longrightarrow> charCodeAt rest 0 \<noteq> Some CharacterCodes_plus
                         \<and> charCodeAt rest 0 \<noteq> Some CharacterCodes_minus)
      \<and> pos s = length pre \<longrightarrow>
    scanNext (pre @ neg @ m @ [e] @ sg @ rest) s =
      s\<lparr>pos := length pre + length neg + length m + 1 + length sg,
         tokenValue := neg @ m,
         tokenOffset := length pre,
         token := NumericLiteral,
         scanError := ScanError_UnexpectedEndOfNumber\<rparr>)
   \<and> scanNext (str ''1.2e'') createScanner =
      \<lparr>pos = 4, tokenValue = str ''1.2'', tokenOffset = 0, token = NumericLiteral,
       scanError = ScanError_UnexpectedEndOfNumber\<rparr>"
proof (intro conjI impI)
  assume a: "intPart ip \<and> (neg = [] \<or> neg = [CharacterCodes_minus])
      \<and> \<not> isDigit (charCodeAt rest 0) \<and> pos s = length pre"
  then obtain d ds where ip: "ip = d # ds" "isDigitCode d"
    using intPart_Cons by blast
  have "scanNext (pre @ neg @ ip @ [CharacterCodes_dot] @ rest) s =
          (scanStart s)\<lparr>pos := length (pre @ neg) + length ip + 1,
             scanError := ScanError_UnexpectedEndOfNumber,
             tokenValue := neg @ (ip @ [CharacterCodes_dot]), token := NumericLiteral\<rparr>"
  proof (rule scanNext_signed [where d = d and pre = pre and after = "ds @ [CharacterCodes_dot] @ rest"])
    fix s' :: scanner
    assume "pos s' = length pre + length neg"
    then show "scanNumber (pre @ neg @ ip @ [CharacterCodes_dot] @ rest) s' =
            (ip @ [CharacterCodes_dot],
             s'\<lparr>pos := length (pre @ neg) + length ip + 1,
                scanError := ScanError_UnexpectedEndOfNumber\<rparr>)"
      using scanNumber_fraction [of ip rest s' "pre @ neg"] a by simp
  qed (use a ip in simp_all)
  then show "scanNext (pre @ neg @ ip @ [CharacterCodes_dot] @ rest) s =
      s\<lparr>pos := length pre + length neg + length ip + 1,
         tokenValue := neg @ ip @ [CharacterCodes_dot],
         tokenOffset := length pre,
         token := NumericLiteral,
         scanError := ScanError_UnexpectedEndOfNumber\<rparr>"
    using a by (simp add: scanStart_def)
next
  assume a: "intPart ip \<and> (neg = [] \<or> neg = [CharacterCodes_minus])
      \<and> (m = ip \<or> (m = ip @ CharacterCodes_dot # fs \<and> fs \<noteq> [] \<and> list_all isDigitCode fs))
      \<and> (e = CharacterCodes_E \<or> e = CharacterCodes_e)
      \<and> (sg = [] \<or> sg = [CharacterCodes_plus] \<or> sg = [CharacterCodes_minus])
      \<and> \<not> isDigit (charCodeAt rest 0)
      \<and> (sg = [] \<longrightarrow> charCodeAt rest 0 \<noteq> Some CharacterCodes_plus
                         \<and> charCodeAt rest 0 \<noteq> Some CharacterCodes_minus)
      \<and> pos s = length pre"
  then obtain d ds where ip: "ip = d # ds" "isDigitCode d"
    using intPart_Cons by blast
  from a ip obtain after where after: "m @ [e] @ sg @ rest = d # after"
    by (cases "m = ip") auto
  have "scanNext (pre @ neg @ m @ [e] @ sg @ rest) s =
          (scanStart s)\<lparr>pos := length (pre @ neg) + length m + 1 + length sg,
             scanError := ScanError_UnexpectedEndOfNumber,
             tokenValue := neg @ m, token := NumericLiteral\<rparr>"
  proof (rule scanNext_signed [where d = d and pre = pre and after = after])
    fix s' :: scanner
    assume "pos s' = length pre + length neg"
    then show "scanNumber (pre @ neg @ m @ [e] @ sg @ rest) s' =
            (m, s'\<lparr>pos := length (pre @ neg) + length m + 1 + length sg,
                   scanError := ScanError_UnexpectedEndOfNumber\<rparr>)"
      using scanNumber_exponent [of ip m fs e sg rest s' "pre @ neg"] a by simp
  qed (use a ip after in simp_all)
  then show "scanNext (pre @ neg @ m @ [e] @ sg @ rest) s =
      s\<lparr>pos := length pre + length neg + length m + 1 + length sg,
         tokenValue := neg @ m,
         tokenOffset := length pre,
         token := NumericLiteral,
         scanError := ScanError_UnexpectedEndOfNumber\<rparr>"
    using a by (simp add: scanStart_def)
next
  show "scanNext (str ''1.2e'') createScanner =
      \<lparr>pos = 4, tokenValue = str ''1.2'', tokenOffset = 0, token = NumericLiteral,
       scanError = ScanError_UnexpectedEndOfNumber\<rparr>"
    by (simp add: scanner_eval)
qed

text \<open>
  Claim C8 as it is stated fails: for \<open>1.2e\<close> the value of the token is not the text
  scanned so far, which runs from the offset of the token to the position of the scanner
  and includes the exponent marker.
\<close>

theorem C8_counterexample:
  "tokenValue (scanNext (str ''1.2e'') createScanner)
     \<noteq> substring (str ''1.2e'')
          (tokenOffset (scanNext (str ''1.2e'') createScanner))
          (pos (scanNext (str ''1.2e'') createScanner))"
  by (simp add: scanner_eval)

text \<open>Claim C8 at \<open>-12.x\<close>, and at \<open>0.5E+\<close> inside \<open>[0.5E+,\<close>.\<close>

theorem C8_witness:
  "scanNext (str ''-12.x'') createScanner =
      \<lparr>pos = 4, tokenValue = str ''-12.'', tokenOffset = 0, token = NumericLiteral,
       scanError = ScanError_UnexpectedEndOfNumber\<rparr>
   \<and> scanNext (str ''[0.5E+,'') (createScanner\<lparr>pos := 1\<rparr>) =
      \<lparr>pos = 6, tokenValue = str ''0.5'', tokenOffset = 1, token = NumericLiteral,
       scanError = ScanError_UnexpectedEndOfNumber\<rparr>"
proof -
  have 1: "scanNext (str ''-12.x'') createScanner =
      \<lparr>pos = 4, tokenValue = str ''-12.'', tokenOffset = 0, token = NumericLiteral,
       scanError = ScanError_UnexpectedEndOfNumber\<rparr>"
    using C8_malformed_number [where ip = "str ''12''" and neg = "[CharacterCodes_minus]"
        and rest = "str ''x''" and s = createScanner and pre = "[]" and m = "[]" and fs = "[]"
        and e = 0 and sg = "[]"]
    by (simp add: str_def intPart_def isDigitCode_def charCodeAt_def createScanner_def)
  have 2: "scanNext (str ''[0.5E+,'') (createScanner\<lparr>pos := 1\<rparr>) =
      \<lparr>pos = 6, tokenValue = str ''0.5'', tokenOffset = 1, token = NumericLiteral,
       scanError = ScanError_UnexpectedEndOfNumber\<rparr>"
    using C8_malformed_number [where ip = "str ''0''" and neg = "[]"
        and rest = "str '',''" and s = "createScanner\<lparr>pos := 1\<rparr>" and pre = "str ''[''"
        and m = "str ''0.5''" and fs = "str ''5''"
        and e = CharacterCodes_E and sg = "[CharacterCodes_plus]"]
    by (simp add: str_def intPart_def isDigitCode_def charCodeAt_def createScanner_def)
  from 1 2 show ?thesis by simp
qed

text \<open>
  Claim C7. The text \<open>0\<close> gives the number 0 and no error. The text \<open>01\<close> gives the
  number 0 and exactly one error, end-of-file-expected, at the \<open>1\<close>. In any text, a \<open>0\<close>
  that a digit follows is a numeric token by itself, of length 1.
\<close>

theorem C7_leading_zero:
  \<open>parse_tree (str ''0'') options = Some (Inr (Some (JNumber 0), []))
   \<and> parse_tree (str ''01'') options
     = Some (Inr (Some (JNumber 0), [\<lparr>error = EndOfFileExpected, offset = 1, errorLength = 1\<rparr>]))
   \<and> events (str ''01'') options
     = Some (True, [LiteralValue (JSNumber 0) 0 1, Error EndOfFileExpected 1 1])
   \<and> (charCodeAt inp (pos s) = Some CharacterCodes_0 \<and> isDigit (charCodeAt inp (pos s + 1)) \<longrightarrow>
        scanNext inp s =
          s\<lparr>pos := pos s + 1, tokenValue := [CharacterCodes_0], tokenOffset := pos s,
            token := NumericLiteral, scanError := ScanError_None\<rparr>)\<close>
proof (intro conjI impI)
  assume a: "charCodeAt inp (pos s) = Some CharacterCodes_0 \<and> isDigit (charCodeAt inp (pos s + 1))"
  then have lt: "pos s < length inp" and at: "inp ! pos s = CharacterCodes_0"
    by (auto simp: charCodeAt_def split: if_splits)
  have "scanNumber inp (scanStart s) = ([CharacterCodes_0], (scanStart s)\<lparr>pos := pos (scanStart s) + 1\<rparr>)"
    using a by (intro scanNumber_zero) (simp_all add: scanStart_def del: isDigit.simps)
  then show "scanNext inp s =
          s\<lparr>pos := pos s + 1, tokenValue := [CharacterCodes_0], tokenOffset := pos s,
            token := NumericLiteral, scanError := ScanError_None\<rparr>"
    using lt at by (simp add: scanNext_digit scanStart_def)
qed (simp_all add: parse_eval events_def recorder_def)

text \<open>Claim C7 at the \<open>0\<close> of \<open>[012]\<close>.\<close>

theorem C7_witness:
  \<open>scanNext (str ''[012]'') (createScanner\<lparr>pos := 1\<rparr>) =
     \<lparr>pos = 2, tokenValue = str ''0'', tokenOffset = 1, token = NumericLiteral,
      scanError = ScanError_None\<rparr>\<close>
  using C7_leading_zero [where inp = "str ''[012]''" and s = "createScanner\<lparr>pos := 1\<rparr>"]
  by (simp add: str_def charCodeAt_def createScanner_def)

section \<open>getNodeType\<close>

text \<open>\<open>typeof\<close> on the values of the model, and \<open>Array.isArray\<close>, which reads the store.\<close>

fun typeof :: "jsval \<Rightarrow> string" where
  "typeof JSUndefined = ''undefined''"
| "typeof JSNull = ''object''"
| "typeof (JSBoolean b) = ''boolean''"
| "typeof (JSNumber x) = ''number''"
| "typeof (JSString s) = ''string''"
| "typeof (JSRef a) = ''object''"

fun isArray :: "jsobj list \<Rightarrow> jsval \<Rightarrow> bool" where
  "isArray h (JSRef a) =
     (a < length h \<and> (case h ! a of JSArray xs \<Rightarrow> True | JSObject props p \<Rightarrow> False))"
| "isArray h v = False"

text \<open>\<open>!value\<close> for a value whose \<open>typeof\<close> is \<open>object\<close>: only \<open>null\<close> is falsy.\<close>

definition getNodeType :: "jsobj list \<Rightarrow> jsval \<Rightarrow> string" where
  "getNodeType h v =
     (if typeof v = ''boolean'' then ''boolean''
      else if typeof v = ''number'' then ''number''
      else if typeof v = ''string'' then ''string''
      else if typeof v = ''object'' then
        (if v = JSNull then ''null''
         else if isArray h v then ''array''
         else ''object'')
      else ''null'')"

text \<open>
  Claim C10. \<open>getNodeType\<close> returns \<open>null\<close> for \<open>undefined\<close>, as it does for the value
  \<open>null\<close>, so the two cannot be told apart by it; it returns \<open>object\<close> for every value
  whose \<open>typeof\<close> is \<open>object\<close> and that is neither \<open>null\<close> nor an array, and \<open>boolean\<close>,
  \<open>number\<close> and \<open>string\<close> for a boolean, a number and a string.
\<close>

theorem C10_getNodeType:
  "getNodeType h JSUndefined = ''null''
   \<and> getNodeType h JSNull = ''null''
   \<and> getNodeType h JSUndefined = getNodeType h JSNull
   \<and> (typeof v = ''object'' \<and> v \<noteq> JSNull \<and> \<not> isArray h v \<longrightarrow> getNodeType h v = ''object'')
   \<and> getNodeType h (JSBoolean b) = ''boolean''
   \<and> getNodeType h (JSNumber x) = ''number''
   \<and> getNodeType h (JSString s) = ''string''"
  by (simp add: getNodeType_def)

text \<open>Claim C10 at an object of the store, and at \<open>undefined\<close>.\<close>

theorem C10_witness:
  "typeof (JSRef 0) = ''object'' \<and> JSRef 0 \<noteq> JSNull
   \<and> \<not> isArray [JSObject [] ObjectPrototype] (JSRef 0)
   \<and> getNodeType [JSObject [] ObjectPrototype] (JSRef 0) = ''object''
   \<and> getNodeType [JSObject [] ObjectPrototype] JSUndefined = ''null''"
  using C10_getNodeType [of "[JSObject [] ObjectPrototype]" "JSRef 0"] by simp

end
